theory Spec2Isabelle
  imports Complex_Main "HOL-Library.Word"
begin

section \<open>JavaScript values\<close>

text \<open>
  A JavaScript string is a sequence of 16-bit code units; a Buffer is a sequence of
  bytes. \<open>js\<close> embeds an ASCII literal of the sources.
\<close>

type_synonym code_unit = "16 word"
type_synonym jsstring = "code_unit list"
type_synonym byte = "8 word"

definition js :: "string \<Rightarrow> jsstring" where
  "js s = map of_char s"

text \<open>
  Numbers: the values the bot handles are \<open>NaN\<close>, the infinities and finite doubles
  (every finite double is a rational; \<open>-0\<close> and \<open>0\<close> are identified: \<open>===\<close>,
  \<open>isNaN\<close> and the truthiness test do not tell them apart).
\<close>

datatype number = NaN | Finite rat | PlusInfinity | MinusInfinity

text \<open>\<open>a === b\<close> on numbers: \<open>NaN\<close> equals nothing.\<close>

definition strict_eq :: "number \<Rightarrow> number \<Rightarrow> bool" where
  "strict_eq a b = (a \<noteq> NaN \<and> a = b)"

text \<open>The global \<open>isNaN(x)\<close>; \<open>None\<close> is \<open>undefined\<close>, which converts to \<open>NaN\<close>.\<close>

fun isNaN :: "number option \<Rightarrow> bool" where
  "isNaN None = True"
| "isNaN (Some NaN) = True"
| "isNaN (Some _) = False"

text \<open>\<open>!s\<close> for a string or \<open>undefined\<close>: true for \<open>undefined\<close> and the empty string.\<close>

fun falsy :: "jsstring option \<Rightarrow> bool" where
  "falsy None = True"
| "falsy (Some s) = (s = [])"

text \<open>\<open>s.split(sep)\<close> for a separator of one code unit.\<close>

fun split :: "code_unit \<Rightarrow> jsstring \<Rightarrow> jsstring list" where
  "split sep [] = [[]]"
| "split sep (c # cs) =
     (if c = sep then [] # split sep cs
      else (case split sep cs of
              [] \<Rightarrow> [[c]]
            | t # ts \<Rightarrow> (c # t) # ts))"

text \<open>Reading element \<open>i\<close> of an array, as array destructuring does: \<open>undefined\<close> out of range.\<close>

definition element :: "'a list \<Rightarrow> nat \<Rightarrow> 'a option" where
  "element xs i = (if i < length xs then Some (xs ! i) else None)"

subsection \<open>\<open>Number(string)\<close>\<close>

text \<open>
  \<open>Number(s)\<close> is computed here for the empty string (\<open>0\<close>) and for a string of decimal
  digits, with or without a sign, whose value is a safe integer (at most \<open>2^53\<close>, where the
  double is exact). On every other string the engine's conversion (fractions, exponents,
  hexadecimal literals, white space, \<open>Infinity\<close>, rounding of long literals, \<open>NaN\<close> for
  the rest) is the parameter \<open>engine\<close>: the theorems hold for any such function.
\<close>

definition is_digit :: "code_unit \<Rightarrow> bool" where
  "is_digit c = (0x30 \<le> c \<and> c \<le> 0x39)"

definition digit_value :: "code_unit \<Rightarrow> nat" where
  "digit_value c = unat c - 48"

definition digits_value :: "jsstring \<Rightarrow> nat" where
  "digits_value s = foldl (\<lambda>n c. 10 * n + digit_value c) 0 s"

definition safe_digits :: "jsstring \<Rightarrow> bool" where
  "safe_digits s = (s \<noteq> [] \<and> list_all is_digit s \<and> digits_value s \<le> 9007199254740992)"

definition Number :: "(jsstring \<Rightarrow> number) \<Rightarrow> jsstring \<Rightarrow> number" where
  "Number engine s =
     (case s of
        [] \<Rightarrow> Finite 0
      | c # r \<Rightarrow>
          if safe_digits s then Finite (of_nat (digits_value s))
          else if c = 0x2B \<and> safe_digits r then Finite (of_nat (digits_value r))
          else if c = 0x2D \<and> safe_digits r then Finite (- of_nat (digits_value r))
          else engine s)"

subsection \<open>Errors\<close>

text \<open>
  JSON values as \<open>JSON.parse\<close> builds them. A number keeps the text of its literal;
  \<open>None\<close> stands for \<open>undefined\<close>.
\<close>

datatype json =
    JNull
  | JBool bool
  | JNumber jsstring
  | JString jsstring
  | JArray "json list"
  | JObject "(jsstring \<times> json) list"

type_synonym jsvalue = "json option"

text \<open>
  Messages of the \<open>Error\<close> objects: a literal, or one of the two templates of
  \<open>checkPageSpeed\<close> with the values interpolated.
\<close>

datatype message =
    Text jsstring
  | Failed_to_analyze jsvalue message
  | Unknown_error jsvalue

datatype error_class = Error | TypeError | SyntaxError

text \<open>A thrown value: an \<open>Error\<close> object, or any other value (\<open>instanceof Error\<close> false).\<close>

datatype exn = Exn error_class message | Thrown_value

subsection \<open>A parsed value in a template string\<close>

text \<open>
  A template string converts each interpolated value to a string. For a value built by
  \<open>JSON.parse\<close> the conversion throws a \<open>TypeError\<close> in one case: an object with a
  member named \<open>toString\<close> (the member hides \<open>Object.prototype.toString\<close> and, like every
  parsed value, is not callable; \<open>valueOf\<close> then returns the object itself or is hidden
  in the same way). An array is joined, which converts its elements, so it throws when
  one of them does. Every other value has a text: \<open>undefined\<close>, \<open>null\<close>, a boolean, a
  number, a string, \<open>[object Object]\<close>. The model keeps the value in place of its text
  (see \<open>line\<close> below) and \<open>interpolate\<close> is the conversion with its result dropped.
\<close>

fun convertible :: "json \<Rightarrow> bool" where
  "convertible (JObject ms) = (js ''toString'' \<notin> fst ` set ms)"
| "convertible (JArray vs) = (\<forall>v \<in> set vs. convertible v)"
| "convertible JNull = True"
| "convertible (JBool b) = True"
| "convertible (JNumber n) = True"
| "convertible (JString s) = True"

definition converts :: "jsvalue \<Rightarrow> bool" where
  "converts v = (case v of None \<Rightarrow> True | Some j \<Rightarrow> convertible j)"

definition cannot_convert :: exn where
  "cannot_convert = Exn TypeError (Text (js ''Cannot convert object to primitive value''))"

section \<open>The wire format of a task\<close>

text \<open>
  \<open>JSON.stringify({ url, chatId })\<close> for a string \<open>url\<close> and an integer \<open>chatId\<close>. A
  string is quoted code point by code point: the short escapes, \<open>\uXXXX\<close> for the other
  control characters and for a surrogate that is not part of a pair, the code units
  themselves otherwise. A number that is a safe integer (at most \<open>2^53\<close> in absolute
  value, where every integer is a double) prints as its decimal numeral. Of a larger one
  the engine prints the shortest digits that identify the double, with an exponent from
  \<open>1e21\<close>: that text is the parameter \<open>numeral_of\<close>, and the theorems hold for any such
  function.
\<close>

definition is_lead :: "code_unit \<Rightarrow> bool" where
  "is_lead c = (0xD800 \<le> c \<and> c \<le> 0xDBFF)"

definition is_trail :: "code_unit \<Rightarrow> bool" where
  "is_trail c = (0xDC00 \<le> c \<and> c \<le> 0xDFFF)"

definition hex_digit :: "nat \<Rightarrow> code_unit" where
  "hex_digit n = (if n < 10 then of_nat (48 + n) else of_nat (87 + n))"

definition unicode_escape :: "code_unit \<Rightarrow> jsstring" where
  "unicode_escape c =
     [0x5C, 0x75, hex_digit (unat c div 4096), hex_digit (unat c div 256 mod 16),
      hex_digit (unat c div 16 mod 16), hex_digit (unat c mod 16)]"

definition quote_unit :: "code_unit \<Rightarrow> jsstring" where
  "quote_unit c =
     (if c = 0x08 then [0x5C, 0x62]
      else if c = 0x09 then [0x5C, 0x74]
      else if c = 0x0A then [0x5C, 0x6E]
      else if c = 0x0C then [0x5C, 0x66]
      else if c = 0x0D then [0x5C, 0x72]
      else if c = 0x22 then [0x5C, 0x22]
      else if c = 0x5C then [0x5C, 0x5C]
      else if c < 0x20 \<or> is_lead c \<or> is_trail c then unicode_escape c
      else [c])"

fun quote_units :: "jsstring \<Rightarrow> jsstring" where
  "quote_units [] = []"
| "quote_units [c] = quote_unit c"
| "quote_units (c # d # cs) =
     (if is_lead c \<and> is_trail d then c # d # quote_units cs
      else quote_unit c @ quote_units (d # cs))"

definition QuoteJSONString :: "jsstring \<Rightarrow> jsstring" where
  "QuoteJSONString s = 0x22 # quote_units s @ [0x22]"

fun digits :: "nat \<Rightarrow> jsstring" where
  "digits n = (if n < 10 then [of_nat (48 + n)] else digits (n div 10) @ [of_nat (48 + n mod 10)])"

declare digits.simps [simp del]

definition decimal :: "int \<Rightarrow> jsstring" where
  "decimal i = (if i < 0 then 0x2D # digits (nat (- i)) else digits (nat i))"

definition Number_toString :: "(int \<Rightarrow> jsstring) \<Rightarrow> int \<Rightarrow> jsstring" where
  "Number_toString numeral_of n =
     (if \<bar>n\<bar> \<le> 9007199254740992 then decimal n else numeral_of n)"

definition stringify_task :: "(int \<Rightarrow> jsstring) \<Rightarrow> jsstring \<Rightarrow> int \<Rightarrow> jsstring" where
  "stringify_task numeral_of url chatId =
     js ''{'' @ QuoteJSONString (js ''url'') @ js '':'' @ QuoteJSONString url @ js '','' @
     QuoteJSONString (js ''chatId'') @ js '':'' @ Number_toString numeral_of chatId @ js ''}''"

text \<open>
  \<open>Buffer.from(message)\<close>: the UTF-8 encoding of the string. A surrogate pair is one code
  point of four bytes; a surrogate outside a pair is encoded as U+FFFD.
\<close>

definition utf8 :: "nat \<Rightarrow> byte list" where
  "utf8 cp =
     (if cp < 0x80 then [of_nat cp]
      else if cp < 0x800 then [of_nat (0xC0 + cp div 64), of_nat (0x80 + cp mod 64)]
      else if cp < 0x10000 then
        [of_nat (0xE0 + cp div 4096), of_nat (0x80 + cp div 64 mod 64), of_nat (0x80 + cp mod 64)]
      else
        [of_nat (0xF0 + cp div 262144), of_nat (0x80 + cp div 4096 mod 64),
         of_nat (0x80 + cp div 64 mod 64), of_nat (0x80 + cp mod 64)])"

definition pair_code_point :: "code_unit \<Rightarrow> code_unit \<Rightarrow> nat" where
  "pair_code_point c d = 0x10000 + (unat c - 0xD800) * 0x400 + (unat d - 0xDC00)"

definition unit_code_point :: "code_unit \<Rightarrow> nat" where
  "unit_code_point c = (if is_lead c \<or> is_trail c then 0xFFFD else unat c)"

fun Buffer_from :: "jsstring \<Rightarrow> byte list" where
  "Buffer_from [] = []"
| "Buffer_from [c] = utf8 (unit_code_point c)"
| "Buffer_from (c # d # cs) =
     (if is_lead c \<and> is_trail d then utf8 (pair_code_point c d) @ Buffer_from cs
      else utf8 (unit_code_point c) @ Buffer_from (d # cs))"

section \<open>Effects\<close>

text \<open>
  A run of a handler is its result (a thrown value, or a return) and the effects it
  performed on the outside, in order: every call into a library, with whether it
  returned or threw. Template strings are kept as the template and the interpolated
  values.
\<close>

datatype line =
    Waiting
  | Sent_message jsstring
  | Queued_scheduled jsstring number number int
  | Failed_to_queue jsstring number number int
  | Received jsvalue jsvalue
  | Report_saved

datatype reply =
    Plain jsstring
  | Scheduled_daily jsstring number number

text \<open>The fields of the Lighthouse result that \<open>checkPageSpeed\<close> reads.\<close>

record lhr =
  finalDisplayedUrl :: jsstring
  performance_score :: "number option"
  speed_index :: "jsstring option"
  first_contentful_paint :: "jsstring option"
  largest_contentful_paint :: "jsstring option"
  interactive :: "jsstring option"

datatype path = Relative jsstring | In_cwd jsstring

text \<open>
  The text \<open>checkPageSpeed\<close> returns: \<open>JSON.stringify(result, null, 2)\<close> for the summary of
  a Lighthouse result, kept as that result.
\<close>

datatype speed_report = Summary lhr

datatype file_content =
    Full_report lhr
  | Pdf "byte list"

datatype action =
    Connect
  | CreateChannel
  | AssertQueue jsstring
  | Prefetch nat
  | SendToQueue jsstring "byte list"
  | Consume jsstring
  | CloseChannel
  | CloseConnection
  | Ack nat
  | Console_log line
  | Console_error "line option" exn
  | Reply int reply
  | Create int jsstring number number
  | Launch
  | Lighthouse jsvalue nat
  | Kill nat
  | Render speed_report
  | WriteFile path file_content
  | Unlink path
  | SendDocument jsvalue path

text \<open>A call that returned, or a call that threw.\<close>

datatype event = Did action | Failed action exn

type_synonym 'a run = "(exn + 'a) \<times> event list"

definition returns :: "'a \<Rightarrow> 'a run" where
  "returns x = (Inr x, [])"

definition throw :: "exn \<Rightarrow> 'a run" where
  "throw e = (Inl e, [])"

text \<open>Sequencing: \<open>const x = await m; k x\<close>.\<close>

definition bind :: "'a run \<Rightarrow> ('a \<Rightarrow> 'b run) \<Rightarrow> 'b run" where
  "bind m k =
     (case m of
        (Inl e, t) \<Rightarrow> (Inl e, t)
      | (Inr x, t) \<Rightarrow> (case k x of (r, t') \<Rightarrow> (r, t @ t')))"

text \<open>
  A call into a library or the outside world: \<open>outcome\<close> is what the world answers, a
  thrown value or the returned one.
\<close>

definition call :: "exn + 'a \<Rightarrow> action \<Rightarrow> 'a run" where
  "call outcome a = (case outcome of Inl e \<Rightarrow> (Inl e, [Failed a e]) | Inr x \<Rightarrow> (Inr x, [Did a]))"

definition effect :: "exn option \<Rightarrow> action \<Rightarrow> unit run" where
  "effect fault a = (case fault of Some e \<Rightarrow> (Inl e, [Failed a e]) | None \<Rightarrow> (Inr (), [Did a]))"

text \<open>\<open>try { m } catch (error) { h error }\<close>.\<close>

definition try_catch :: "'a run \<Rightarrow> (exn \<Rightarrow> 'a run) \<Rightarrow> 'a run" where
  "try_catch m h =
     (case m of
        (Inl e, t) \<Rightarrow> (case h e of (r, t') \<Rightarrow> (r, t @ t'))
      | (Inr x, t) \<Rightarrow> (Inr x, t))"

text \<open>
  \<open>try { m } finally { f }\<close>: \<open>f\<close> runs on every exit of \<open>m\<close>; when \<open>f\<close> throws, its
  exception replaces the result of \<open>m\<close>.
\<close>

definition try_finally :: "'a run \<Rightarrow> unit run \<Rightarrow> 'a run" where
  "try_finally m f =
     (case m of (r, t) \<Rightarrow>
        (case f of
           (Inl e, t') \<Rightarrow> (Inl e, t @ t')
         | (Inr _, t') \<Rightarrow> (r, t @ t')))"

text \<open>A value interpolated in a template string: its conversion to a string returns or throws.\<close>

definition interpolate :: "jsvalue \<Rightarrow> unit run" where
  "interpolate v = (if converts v then returns () else throw cannot_convert)"

section \<open>The producer (\<open>producer.ts\<close>)\<close>

subsection \<open>\<open>sendToQueue\<close>\<close>

text \<open>
  The broker is outside the repository. What it answers to one \<open>sendToQueue\<close> is the
  call that throws, if any, and the value thrown.
\<close>

datatype amqp_call =
    At_connect | At_createChannel | At_assertQueue | At_sendToQueue
  | At_channel_close | At_connection_close

type_synonym amqp_fault = "(amqp_call \<times> exn) option"

definition fault_at :: "amqp_fault \<Rightarrow> amqp_call \<Rightarrow> exn option" where
  "fault_at f c = (case f of None \<Rightarrow> None | Some (c', e) \<Rightarrow> if c' = c then Some e else None)"

definition queue :: jsstring where
  "queue = js ''lighthouse_tasks''"

definition sendToQueue :: "(int \<Rightarrow> jsstring) \<Rightarrow> amqp_fault \<Rightarrow> jsstring \<Rightarrow> int \<Rightarrow> unit run" where
  "sendToQueue numeral_of f url chatId =
     bind (effect (fault_at f At_connect) Connect) (\<lambda>_.
     bind (effect (fault_at f At_createChannel) CreateChannel) (\<lambda>_.
     bind (effect (fault_at f At_assertQueue) (AssertQueue queue)) (\<lambda>_.
     let message = stringify_task numeral_of url chatId in
     bind (effect (fault_at f At_sendToQueue) (SendToQueue queue (Buffer_from message))) (\<lambda>_.
     bind (effect None (Console_log (Sent_message message))) (\<lambda>_.
     bind (effect (fault_at f At_channel_close) CloseChannel) (\<lambda>_.
     effect (fault_at f At_connection_close) CloseConnection))))))"

subsection \<open>The \<open>/schedule\<close> command, with the database\<close>

text \<open>
  The table \<open>scheduled_reports\<close>. The database is outside the repository:
  \<open>ScheduledReport.create\<close> either throws or adds a row with the values it was given
  and the next serial \<open>id\<close>.
\<close>

record ScheduledReport =
  report_id :: nat
  report_chatId :: int
  report_url :: jsstring
  report_hour :: number
  report_minute :: number

record database =
  rows :: "ScheduledReport list"
  next_id :: nat

definition create :: "int \<Rightarrow> jsstring \<Rightarrow> number \<Rightarrow> number \<Rightarrow> database \<Rightarrow> database" where
  "create c u h m db =
     \<lparr>rows = rows db @ [\<lparr>report_id = next_id db, report_chatId = c, report_url = u, report_hour = h, report_minute = m\<rparr>],
      next_id = Suc (next_id db)\<rparr>"

definition usage :: reply where
  "usage = Plain (js ''Usage: /schedule <URL> <HH:MM>'')"

definition undefined_split :: exn where
  "undefined_split = Exn TypeError (Text (js ''Cannot read properties of undefined (reading 'split')''))"

text \<open>
  The handler takes the text of the message and the chat's id, and returns its run and
  the database it leaves. \<open>time.split(':')\<close> on an \<open>undefined\<close> \<open>time\<close> throws a
  \<open>TypeError\<close> (the message is V8's).
\<close>

text \<open>\<open>const [hour, minute] = time.split(':').map(Number)\<close>.\<close>

definition parse_time :: "(jsstring \<Rightarrow> number) \<Rightarrow> jsstring \<Rightarrow> number option \<times> number option" where
  "parse_time engine time =
     (let numbers = map (Number engine) (split 0x3A time)
      in (element numbers 0, element numbers 1))"

definition schedule_db ::
  "(jsstring \<Rightarrow> number) \<Rightarrow> exn option \<Rightarrow> jsstring \<Rightarrow> int \<Rightarrow> database \<Rightarrow> unit run \<times> database" where
  "schedule_db engine create_fault text chat db =
     (let parts = split 0x20 text;
          url = element parts 1;
          time = element parts 2
      in case time of
           None \<Rightarrow> (throw undefined_split, db)
         | Some t \<Rightarrow>
             (let (hour, minute) = parse_time engine t
              in if falsy url \<or> isNaN hour \<or> isNaN minute
                 then (effect None (Reply chat usage), db)
                 else (bind (effect create_fault (Create chat (the url) (the hour) (the minute))) (\<lambda>_.
                       effect None (Reply chat (Scheduled_daily (the url) (the hour) (the minute)))),
                       case create_fault of
                         Some e \<Rightarrow> db
                       | None \<Rightarrow> create chat (the url) (the hour) (the minute) db)))"

subsection \<open>The cron job, with the database\<close>

text \<open>The wall clock: \<open>now.getHours()\<close> and \<open>now.getMinutes()\<close>.\<close>

record clock =
  getHours :: nat
  getMinutes :: nat

text \<open>
  The body of the loop over the reports found, and the loop. The broker's answers to
  the successive calls of \<open>sendToQueue\<close> are numbered from \<open>0\<close>.
\<close>

definition queue_report :: "(int \<Rightarrow> jsstring) \<Rightarrow> amqp_fault \<Rightarrow> ScheduledReport \<Rightarrow> event list" where
  "queue_report numeral_of f report =
     snd (try_catch
            (bind (sendToQueue numeral_of f (report_url report) (report_chatId report)) (\<lambda>_.
             effect None (Console_log
               (Queued_scheduled (report_url report) (report_hour report) (report_minute report)
                  (report_chatId report)))))
            (\<lambda>error. effect None (Console_error
               (Some (Failed_to_queue (report_url report) (report_hour report) (report_minute report)
                  (report_chatId report)))
               error)))"

fun queue_reports ::
  "(int \<Rightarrow> jsstring) \<Rightarrow> (nat \<Rightarrow> amqp_fault) \<Rightarrow> ScheduledReport list \<Rightarrow> event list" where
  "queue_reports numeral_of fs [] = []"
| "queue_reports numeral_of fs (report # reports) =
     queue_report numeral_of (fs 0) report @ queue_reports numeral_of (\<lambda>k. fs (Suc k)) reports"

text \<open>\<open>findAll({ where: { hour: currentHour, minute: currentMinute } })\<close> throws or selects.\<close>

definition findAll :: "number \<Rightarrow> number \<Rightarrow> ScheduledReport list \<Rightarrow> ScheduledReport list" where
  "findAll h m table = filter (\<lambda>r. report_hour r = h \<and> report_minute r = m) table"

definition tick_db ::
  "(int \<Rightarrow> jsstring) \<Rightarrow> exn option \<Rightarrow> (nat \<Rightarrow> amqp_fault) \<Rightarrow> clock \<Rightarrow> database \<Rightarrow> unit run" where
  "tick_db numeral_of find_fault fs now db =
     (let currentHour = Finite (of_nat (getHours now));
          currentMinute = Finite (of_nat (getMinutes now))
      in case find_fault of
           Some e \<Rightarrow> throw e
         | None \<Rightarrow> (Inr (), queue_reports numeral_of fs (findAll currentHour currentMinute (rows db))))"

section \<open>Analysis, report and delivery (\<open>index.ts\<close> and the worker)\<close>

text \<open>
  Chrome, Lighthouse, pdf-lib, the file system and Telegram are outside the repository.
  What they answer while one report is produced: a thrown value or a result for each
  call. \<open>lighthouse\<close> returns \<open>undefined\<close> (\<open>None\<close>), a result without \<open>lhr\<close>
  (\<open>Some None\<close>) or a result with it.
\<close>

record outcomes =
  launch :: "exn + nat"
  lighthouse :: "exn + lhr option option"
  save_report :: "exn option"
  kill :: "exn option"
  generatePDFReport :: "exn + byte list"
  write_pdf :: "exn option"
  sendDocument :: "exn option"
  unlink :: "exn option"

definition invalid_result :: exn where
  "invalid_result = Exn Error (Text (js ''Lighthouse did not return a valid result.''))"

definition outputPath :: path where
  "outputPath = Relative (js ''lighthouse-report.json'')"

text \<open>
  \<open>checkPageSpeed\<close>: Chrome is launched before the \<open>try\<close>. \<open>audit\<close> is the \<open>try\<close> block
  with its \<open>catch\<close>, which rethrows an \<open>Error\<close> with one of two messages, both with the
  URL interpolated; the \<open>finally\<close> kills Chrome.
\<close>

definition audit :: "outcomes \<Rightarrow> jsvalue \<Rightarrow> nat \<Rightarrow> speed_report run" where
  "audit w url chrome =
     try_catch
       (bind (call (lighthouse w) (Lighthouse url chrome)) (\<lambda>runnerResult.
          case runnerResult of
            None \<Rightarrow> throw invalid_result
          | Some None \<Rightarrow> throw invalid_result
          | Some (Some report) \<Rightarrow>
              bind (effect (save_report w) (WriteFile outputPath (Full_report report))) (\<lambda>_.
              bind (effect None (Console_log Report_saved)) (\<lambda>_.
              returns (Summary report)))))
       (\<lambda>error.
          bind (interpolate url) (\<lambda>_.
          case error of
            Exn _ m \<Rightarrow> throw (Exn Error (Failed_to_analyze url m))
          | Thrown_value \<Rightarrow> throw (Exn Error (Unknown_error url))))"

definition checkPageSpeed :: "outcomes \<Rightarrow> jsvalue \<Rightarrow> speed_report run" where
  "checkPageSpeed w url =
     bind (call (launch w) Launch) (\<lambda>chrome.
       try_finally (audit w url chrome) (effect (kill w) (Kill chrome)))"

definition filePath :: path where
  "filePath = In_cwd (js ''report.pdf'')"

text \<open>
  The body of the \<open>try\<close> block that the cron job of \<open>index.ts\<close> and the worker share:
  analysis, PDF, file, delivery, clean-up.
\<close>

definition deliver_report :: "outcomes \<Rightarrow> jsvalue \<Rightarrow> jsvalue \<Rightarrow> unit run" where
  "deliver_report w url chatId =
     bind (checkPageSpeed w url) (\<lambda>speedReport.
     bind (call (generatePDFReport w) (Render speedReport)) (\<lambda>pdfBuffer.
     bind (effect (write_pdf w) (WriteFile filePath (Pdf pdfBuffer))) (\<lambda>_.
     bind (effect (sendDocument w) (SendDocument chatId filePath)) (\<lambda>_.
     effect (unlink w) (Unlink filePath)))))"

section \<open>The bot with schedules in memory (\<open>index.ts\<close>)\<close>

text \<open>
  \<open>scheduledReports\<close>: an object keyed by chat id. The list keeps the properties in the
  order of their creation; an assignment to an existing key keeps its place.
  \<open>for (const chatId in scheduledReports)\<close> visits the keys that are array indices in
  ascending order, then the others in the order of creation.
\<close>

record schedule =
  schedule_url :: jsstring
  schedule_hour :: number
  schedule_minute :: number

type_synonym scheduledReports = "(int \<times> schedule) list"

fun assign :: "int \<Rightarrow> schedule \<Rightarrow> scheduledReports \<Rightarrow> scheduledReports" where
  "assign k v [] = [(k, v)]"
| "assign k v ((k', v') # kvs) =
     (if k' = k then (k, v) # kvs else (k', v') # assign k v kvs)"

definition is_index :: "int \<Rightarrow> bool" where
  "is_index k = (0 \<le> k \<and> k < 4294967295)"

definition for_in :: "scheduledReports \<Rightarrow> scheduledReports" where
  "for_in obj =
     sort_key fst (filter (\<lambda>kv. is_index (fst kv)) obj) @ filter (\<lambda>kv. \<not> is_index (fst kv)) obj"

definition schedule_memory ::
  "(jsstring \<Rightarrow> number) \<Rightarrow> jsstring \<Rightarrow> int \<Rightarrow> scheduledReports \<Rightarrow> unit run \<times> scheduledReports" where
  "schedule_memory engine text chat reports =
     (let parts = split 0x20 text;
          url = element parts 1;
          time = element parts 2
      in case time of
           None \<Rightarrow> (throw undefined_split, reports)
         | Some t \<Rightarrow>
             (let (hour, minute) = parse_time engine t
              in if falsy url \<or> isNaN hour \<or> isNaN minute
                 then (effect None (Reply chat usage), reports)
                 else (effect None (Reply chat (Scheduled_daily (the url) (the hour) (the minute))),
                       assign chat
                         \<lparr>schedule_url = the url, schedule_hour = the hour, schedule_minute = the minute\<rparr>
                         reports)))"

text \<open>
  The body of the \<open>if\<close> in the loop of the cron job, and the loop. The world's answers
  to the successive reports are numbered from \<open>0\<close>. The key \<open>chatId\<close> of the loop is a
  string, the text of the number the schedule was stored under.
\<close>

definition send_report :: "(int \<Rightarrow> jsstring) \<Rightarrow> outcomes \<Rightarrow> int \<Rightarrow> schedule \<Rightarrow> event list" where
  "send_report numeral_of w chatId s =
     snd (try_catch
            (deliver_report w (Some (JString (schedule_url s)))
               (Some (JString (Number_toString numeral_of chatId))))
            (\<lambda>error. effect None (Console_error None error)))"

fun send_reports ::
  "(int \<Rightarrow> jsstring) \<Rightarrow> (nat \<Rightarrow> outcomes) \<Rightarrow> number \<Rightarrow> number \<Rightarrow> scheduledReports \<Rightarrow> event list" where
  "send_reports numeral_of ws currentHour currentMinute [] = []"
| "send_reports numeral_of ws currentHour currentMinute ((chatId, s) # rest) =
     (if strict_eq (schedule_hour s) currentHour \<and> strict_eq (schedule_minute s) currentMinute
      then send_report numeral_of (ws 0) chatId s @
           send_reports numeral_of (\<lambda>k. ws (Suc k)) currentHour currentMinute rest
      else send_reports numeral_of ws currentHour currentMinute rest)"

definition tick_memory ::
  "(int \<Rightarrow> jsstring) \<Rightarrow> (nat \<Rightarrow> outcomes) \<Rightarrow> clock \<Rightarrow> scheduledReports \<Rightarrow> event list" where
  "tick_memory numeral_of ws now reports =
     send_reports numeral_of ws (Finite (of_nat (getHours now))) (Finite (of_nat (getMinutes now)))
       (for_in reports)"

section \<open>The worker\<close>

subsection \<open>\<open>msg.content.toString()\<close>\<close>

text \<open>
  The UTF-8 decoder: a byte or a sequence that is not well formed decodes to U+FFFD, and
  decoding goes on at the first byte that could not continue the sequence. A code point
  above U+FFFF becomes a surrogate pair.
\<close>

definition continuation :: "byte \<Rightarrow> bool" where
  "continuation b = (0x80 \<le> b \<and> b \<le> 0xBF)"

definition second_of_three :: "byte \<Rightarrow> byte \<Rightarrow> bool" where
  "second_of_three b b1 =
     ((if b = 0xE0 then 0xA0 else 0x80) \<le> b1 \<and> b1 \<le> (if b = 0xED then 0x9F else 0xBF))"

definition second_of_four :: "byte \<Rightarrow> byte \<Rightarrow> bool" where
  "second_of_four b b1 =
     ((if b = 0xF0 then 0x90 else 0x80) \<le> b1 \<and> b1 \<le> (if b = 0xF4 then 0x8F else 0xBF))"

definition code_units :: "nat \<Rightarrow> jsstring" where
  "code_units cp =
     (if cp < 0x10000 then [of_nat cp]
      else [of_nat (0xD800 + (cp - 0x10000) div 0x400), of_nat (0xDC00 + (cp - 0x10000) mod 0x400)])"

fun toString :: "byte list \<Rightarrow> jsstring" where
  "toString [] = []"
| "toString (b # bs) =
     (if b < 0x80 then of_nat (unat b) # toString bs
      else if 0xC2 \<le> b \<and> b \<le> 0xDF then
        (case bs of
           [] \<Rightarrow> [0xFFFD]
         | b1 # r1 \<Rightarrow>
             if continuation b1
             then code_units ((unat b - 0xC0) * 64 + (unat b1 - 0x80)) @ toString r1
             else 0xFFFD # toString (b1 # r1))
      else if 0xE0 \<le> b \<and> b \<le> 0xEF then
        (case bs of
           [] \<Rightarrow> [0xFFFD]
         | b1 # r1 \<Rightarrow>
             if second_of_three b b1 then
               (case r1 of
                  [] \<Rightarrow> [0xFFFD]
                | b2 # r2 \<Rightarrow>
                    if continuation b2
                    then code_units ((unat b - 0xE0) * 4096 + (unat b1 - 0x80) * 64 + (unat b2 - 0x80))
                         @ toString r2
                    else 0xFFFD # toString (b2 # r2))
             else 0xFFFD # toString (b1 # r1))
      else if 0xF0 \<le> b \<and> b \<le> 0xF4 then
        (case bs of
           [] \<Rightarrow> [0xFFFD]
         | b1 # r1 \<Rightarrow>
             if second_of_four b b1 then
               (case r1 of
                  [] \<Rightarrow> [0xFFFD]
                | b2 # r2 \<Rightarrow>
                    if continuation b2 then
                      (case r2 of
                         [] \<Rightarrow> [0xFFFD]
                       | b3 # r3 \<Rightarrow>
                           if continuation b3
                           then code_units ((unat b - 0xF0) * 262144 + (unat b1 - 0x80) * 4096 +
                                            (unat b2 - 0x80) * 64 + (unat b3 - 0x80))
                                @ toString r3
                           else 0xFFFD # toString (b3 # r3))
                    else 0xFFFD # toString (b2 # r2))
             else 0xFFFD # toString (b1 # r1))
      else 0xFFFD # toString bs)"

subsection \<open>\<open>JSON.parse\<close>: the tokens\<close>

datatype token =
    LBrace | RBrace | LBracket | RBracket | Colon | Comma
  | TString jsstring | TNumber jsstring | TTrue | TFalse | TNull

definition hex_value :: "code_unit \<Rightarrow> nat option" where
  "hex_value c =
     (if 0x30 \<le> c \<and> c \<le> 0x39 then Some (unat c - 48)
      else if 0x41 \<le> c \<and> c \<le> 0x46 then Some (unat c - 55)
      else if 0x61 \<le> c \<and> c \<le> 0x66 then Some (unat c - 87)
      else None)"

definition hex4 :: "code_unit \<Rightarrow> code_unit \<Rightarrow> code_unit \<Rightarrow> code_unit \<Rightarrow> code_unit option" where
  "hex4 a b c d =
     (case (hex_value a, hex_value b, hex_value c, hex_value d) of
        (Some x, Some y, Some z, Some w) \<Rightarrow> Some (of_nat (x * 4096 + y * 256 + z * 16 + w))
      | _ \<Rightarrow> None)"

text \<open>The character after a backslash, other than \<open>u\<close>.\<close>

definition escaped :: "code_unit \<Rightarrow> code_unit option" where
  "escaped c =
     (if c = 0x22 \<or> c = 0x5C \<or> c = 0x2F then Some c
      else if c = 0x62 then Some 0x08
      else if c = 0x66 then Some 0x0C
      else if c = 0x6E then Some 0x0A
      else if c = 0x72 then Some 0x0D
      else if c = 0x74 then Some 0x09
      else None)"

definition prepend :: "code_unit \<Rightarrow> (jsstring \<times> jsstring) option \<Rightarrow> (jsstring \<times> jsstring) option" where
  "prepend c r = (case r of None \<Rightarrow> None | Some (s, rest) \<Rightarrow> Some (c # s, rest))"

text \<open>
  The characters of a string literal after its opening quote: the value of the string
  and the text after the closing quote.
\<close>

fun string_characters :: "jsstring \<Rightarrow> (jsstring \<times> jsstring) option" where
  "string_characters [] = None"
| "string_characters (c # cs) =
     (if c = 0x22 then Some ([], cs)
      else if c = 0x5C then
        (case cs of
           [] \<Rightarrow> None
         | e # r \<Rightarrow>
             if e = 0x75 then
               (case r of
                  h1 # h2 # h3 # h4 # r' \<Rightarrow>
                    (case hex4 h1 h2 h3 h4 of
                       None \<Rightarrow> None
                     | Some u \<Rightarrow> prepend u (string_characters r'))
                | _ \<Rightarrow> None)
             else
               (case escaped e of
                  None \<Rightarrow> None
                | Some u \<Rightarrow> prepend u (string_characters r)))
      else if c < 0x20 then None
      else prepend c (string_characters cs))"

text \<open>
  A number literal: \<open>-\<close>\<open>?\<close>, an integer part without a leading zero, an optional
  fraction, an optional exponent. The literal and the text after it.
\<close>

definition integer_part :: "jsstring \<Rightarrow> (jsstring \<times> jsstring) option" where
  "integer_part s =
     (case s of
        [] \<Rightarrow> None
      | c # r \<Rightarrow>
          if c = 0x30 then Some ([c], r)
          else if is_digit c then Some (takeWhile is_digit s, dropWhile is_digit s)
          else None)"

definition fraction :: "jsstring \<Rightarrow> (jsstring \<times> jsstring) option" where
  "fraction s =
     (case s of
        [] \<Rightarrow> Some ([], [])
      | c # r \<Rightarrow>
          if c = 0x2E then
            (if takeWhile is_digit r = [] then None
             else Some (c # takeWhile is_digit r, dropWhile is_digit r))
          else Some ([], s))"

definition exponent :: "jsstring \<Rightarrow> (jsstring \<times> jsstring) option" where
  "exponent s =
     (case s of
        [] \<Rightarrow> Some ([], [])
      | c # r \<Rightarrow>
          if c = 0x65 \<or> c = 0x45 then
            (let sign = (case r of [] \<Rightarrow> [] | p # _ \<Rightarrow> if p = 0x2B \<or> p = 0x2D then [p] else []);
                 r' = drop (length sign) r
             in if takeWhile is_digit r' = [] then None
                else Some (c # sign @ takeWhile is_digit r', dropWhile is_digit r'))
          else Some ([], s))"

definition number_literal :: "jsstring \<Rightarrow> (jsstring \<times> jsstring) option" where
  "number_literal s =
     (let sign = (case s of [] \<Rightarrow> [] | c # _ \<Rightarrow> if c = 0x2D then [c] else [])
      in case integer_part (drop (length sign) s) of
           None \<Rightarrow> None
         | Some (i, s1) \<Rightarrow>
             (case fraction s1 of
                None \<Rightarrow> None
              | Some (f, s2) \<Rightarrow>
                  (case exponent s2 of
                     None \<Rightarrow> None
                   | Some (e, s3) \<Rightarrow> Some (sign @ i @ f @ e, s3))))"

definition whitespace :: "code_unit \<Rightarrow> bool" where
  "whitespace c = (c = 0x20 \<or> c = 0x09 \<or> c = 0x0A \<or> c = 0x0D)"

definition keyword :: "string \<Rightarrow> jsstring \<Rightarrow> jsstring option" where
  "keyword k s = (if take (length k) s = js k then Some (drop (length k) s) else None)"

text \<open>Each of them consumes what it reads, so the scan below terminates.\<close>

lemma prepend_Some: "prepend c r = Some (s, rest) \<Longrightarrow> \<exists>s'. r = Some (s', rest) \<and> s = c # s'"
  by (auto simp add: prepend_def split: option.splits)

lemma string_characters_shorter:
  "string_characters cs = Some (s, rest) \<Longrightarrow> length rest < length cs"
proof (induction cs arbitrary: s rest rule: length_induct)
  case (1 cs)
  show ?case
  proof (cases cs)
    case Nil
    with "1.prems" show ?thesis by simp
  next
    case (Cons c cs')
    note IH = "1.IH" [rule_format, unfolded Cons, rotated]
    show ?thesis
      using "1.prems" unfolding Cons
      by (auto split: if_splits option.splits list.splits dest!: prepend_Some dest: IH)
  qed
qed

lemma integer_part_shorter: "integer_part s = Some (i, r) \<Longrightarrow> length r < length s"
  by (auto simp add: integer_part_def length_dropWhile_le less_Suc_eq_le split: list.splits if_splits)

lemma fraction_shorter: "fraction s = Some (f, r) \<Longrightarrow> length r \<le> length s"
  by (auto simp add: fraction_def length_dropWhile_le le_SucI split: list.splits if_splits)

lemma exponent_shorter: "exponent s = Some (e, r) \<Longrightarrow> length r \<le> length s"
  by (auto simp add: exponent_def Let_def le_SucI
      intro: order_trans [OF length_dropWhile_le] split: list.splits if_splits)

lemma number_literal_shorter: "number_literal s = Some (n, r) \<Longrightarrow> length r < length s"
  by (auto simp add: number_literal_def Let_def split: option.splits list.splits if_splits
      dest!: integer_part_shorter fraction_shorter exponent_shorter)

lemma keyword_shorter: "keyword k s = Some r \<Longrightarrow> length r \<le> length s"
  by (auto simp add: keyword_def split: if_splits)

text \<open>The tokens of a text; \<open>None\<close> when some character starts no token.\<close>

definition cons :: "token \<Rightarrow> token list option \<Rightarrow> token list option" where
  "cons t r = map_option ((#) t) r"

function tokens :: "jsstring \<Rightarrow> token list option" where
  "tokens [] = Some []"
| "tokens (c # cs) =
     (if whitespace c then tokens cs
      else if c = 0x7B then cons LBrace (tokens cs)
      else if c = 0x7D then cons RBrace (tokens cs)
      else if c = 0x5B then cons LBracket (tokens cs)
      else if c = 0x5D then cons RBracket (tokens cs)
      else if c = 0x3A then cons Colon (tokens cs)
      else if c = 0x2C then cons Comma (tokens cs)
      else if c = 0x22 then
        (case string_characters cs of
           None \<Rightarrow> None
         | Some (s, rest) \<Rightarrow> cons (TString s) (tokens rest))
      else if c = 0x2D \<or> is_digit c then
        (case number_literal (c # cs) of
           None \<Rightarrow> None
         | Some (n, rest) \<Rightarrow> cons (TNumber n) (tokens rest))
      else if c = 0x74 then
        (case keyword ''rue'' cs of None \<Rightarrow> None | Some rest \<Rightarrow> cons TTrue (tokens rest))
      else if c = 0x66 then
        (case keyword ''alse'' cs of None \<Rightarrow> None | Some rest \<Rightarrow> cons TFalse (tokens rest))
      else if c = 0x6E then
        (case keyword ''ull'' cs of None \<Rightarrow> None | Some rest \<Rightarrow> cons TNull (tokens rest))
      else None)"
  by pat_completeness auto
termination
  by (relation "measure length")
    (auto dest!: string_characters_shorter number_literal_shorter keyword_shorter)

subsection \<open>\<open>JSON.parse\<close>: the values\<close>

text \<open>
  The tokens are read from left to right with a stack of the arrays and objects that are
  open: the elements or members read so far (the last one first) and, in an object after
  a key, that key.
\<close>

datatype frame =
    Elements "json list"
  | Members "(jsstring \<times> json) list"
  | Member "(jsstring \<times> json) list" jsstring

datatype expecting =
    A_value | A_value_or_end | A_key | A_key_or_end | A_colon | A_separator | The_end json

type_synonym parser = "expecting \<times> frame list"

text \<open>A value is complete: it is the whole text, an element, or the value of a member.\<close>

definition complete :: "json \<Rightarrow> frame list \<Rightarrow> parser option" where
  "complete v stack =
     (case stack of
        [] \<Rightarrow> Some (The_end v, [])
      | Elements vs # st \<Rightarrow> Some (A_separator, Elements (v # vs) # st)
      | Member ms k # st \<Rightarrow> Some (A_separator, Members ((k, v) # ms) # st)
      | Members ms # st \<Rightarrow> None)"

definition value_start :: "token \<Rightarrow> frame list \<Rightarrow> parser option" where
  "value_start t stack =
     (case t of
        TString s \<Rightarrow> complete (JString s) stack
      | TNumber n \<Rightarrow> complete (JNumber n) stack
      | TTrue \<Rightarrow> complete (JBool True) stack
      | TFalse \<Rightarrow> complete (JBool False) stack
      | TNull \<Rightarrow> complete JNull stack
      | LBracket \<Rightarrow> Some (A_value_or_end, Elements [] # stack)
      | LBrace \<Rightarrow> Some (A_key_or_end, Members [] # stack)
      | _ \<Rightarrow> None)"

definition key :: "token \<Rightarrow> frame list \<Rightarrow> parser option" where
  "key t stack =
     (case t of
        TString k \<Rightarrow>
          (case stack of
             Members ms # st \<Rightarrow> Some (A_colon, Member ms k # st)
           | _ \<Rightarrow> None)
      | _ \<Rightarrow> None)"

definition close_array :: "frame list \<Rightarrow> parser option" where
  "close_array stack =
     (case stack of
        Elements vs # st \<Rightarrow> complete (JArray (rev vs)) st
      | _ \<Rightarrow> None)"

definition close_object :: "frame list \<Rightarrow> parser option" where
  "close_object stack =
     (case stack of
        Members ms # st \<Rightarrow> complete (JObject (rev ms)) st
      | _ \<Rightarrow> None)"

definition step :: "parser \<Rightarrow> token \<Rightarrow> parser option" where
  "step p t =
     (case p of (e, stack) \<Rightarrow>
        (case e of
           A_value \<Rightarrow> value_start t stack
         | A_value_or_end \<Rightarrow> (if t = RBracket then close_array stack else value_start t stack)
         | A_key \<Rightarrow> key t stack
         | A_key_or_end \<Rightarrow> (if t = RBrace then close_object stack else key t stack)
         | A_colon \<Rightarrow> (if t = Colon then Some (A_value, stack) else None)
         | A_separator \<Rightarrow>
             (if t = Comma then
                (case stack of
                   Elements vs # st \<Rightarrow> Some (A_value, stack)
                 | Members ms # st \<Rightarrow> Some (A_key, stack)
                 | _ \<Rightarrow> None)
              else if t = RBracket then close_array stack
              else if t = RBrace then close_object stack
              else None)
         | The_end v \<Rightarrow> None))"

fun parse_tokens :: "parser \<Rightarrow> token list \<Rightarrow> json option" where
  "parse_tokens p [] = (case p of (The_end v, []) \<Rightarrow> Some v | _ \<Rightarrow> None)"
| "parse_tokens p (t # ts) =
     (case step p t of
        None \<Rightarrow> None
      | Some p' \<Rightarrow> parse_tokens p' ts)"

text \<open>The engine's message names the token and its position; it is not modelled.\<close>

definition syntax_error :: exn where
  "syntax_error = Exn SyntaxError (Text (js ''Unexpected token in JSON''))"

definition JSON_parse :: "jsstring \<Rightarrow> exn + json" where
  "JSON_parse text =
     (case tokens text of
        None \<Rightarrow> Inl syntax_error
      | Some ts \<Rightarrow>
          (case parse_tokens (A_value, []) ts of
             None \<Rightarrow> Inl syntax_error
           | Some v \<Rightarrow> Inr v))"

subsection \<open>The callback of \<open>channel.consume\<close>\<close>

text \<open>
  Reading a property of a parsed value: the last member of that name of an object (a
  later duplicate replaces an earlier one), \<open>undefined\<close> on any other value. Reading a
  property of \<open>null\<close> throws, which the destructuring pattern does before anything else.
\<close>

definition property :: "json \<Rightarrow> jsstring \<Rightarrow> jsvalue" where
  "property v k = (case v of JObject ms \<Rightarrow> map_of (rev ms) k | _ \<Rightarrow> None)"

definition null_destructure :: exn where
  "null_destructure =
     Exn TypeError (Text (js ''Cannot destructure property 'url' of 'JSON.parse(...)' as it is null.''))"

definition destructure :: "exn + json \<Rightarrow> (jsvalue \<times> jsvalue) run" where
  "destructure parsed =
     (case parsed of
        Inl e \<Rightarrow> throw e
      | Inr v \<Rightarrow>
          if v = JNull then throw null_destructure
          else returns (property v (js ''url''), property v (js ''chatId'')))"

text \<open>A message as the broker delivers it.\<close>

record consume_message =
  content :: "byte list"
  deliveryTag :: nat

text \<open>
  The callback: \<open>None\<close> is the \<open>null\<close> that amqplib passes when the broker cancels the
  consumer. \<open>JSON.parse\<close>, the destructuring and the template string of the first
  \<open>console.log\<close>, which converts the two parsed values, stand before the \<open>try\<close>.
\<close>

definition consume_callback :: "outcomes \<Rightarrow> consume_message option \<Rightarrow> unit run" where
  "consume_callback w msg =
     (case msg of
        None \<Rightarrow> returns ()
      | Some m \<Rightarrow>
          bind (destructure (JSON_parse (toString (content m)))) (\<lambda>(url, chatId).
          bind (interpolate url) (\<lambda>_.
          bind (interpolate chatId) (\<lambda>_.
          bind (effect None (Console_log (Received url chatId))) (\<lambda>_.
          bind (try_catch
                  (deliver_report w url chatId)
                  (\<lambda>error. effect None (Console_error None error))) (\<lambda>_.
          effect None (Ack (deliveryTag m))))))))"

text \<open>The worker at start: the channel is given prefetch count \<open>1\<close> before the consumer subscribes.\<close>

definition startWorker :: "amqp_fault \<Rightarrow> unit run" where
  "startWorker f =
     bind (effect (fault_at f At_connect) Connect) (\<lambda>_.
     bind (effect (fault_at f At_createChannel) CreateChannel) (\<lambda>_.
     bind (effect (fault_at f At_assertQueue) (AssertQueue queue)) (\<lambda>_.
     bind (effect None (Prefetch 1)) (\<lambda>_.
     bind (effect None (Console_log Waiting)) (\<lambda>_.
     effect None (Consume queue))))))"

subsection \<open>The broker\<close>

text \<open>
  Modelled from the spec: the broker (RabbitMQ) is not part of the repository. A channel
  holds the entries that are ready, the delivery tags it has delivered and not seen
  acknowledged, and the callbacks it has started, each with the calls it has still to
  make. With a prefetch count \<open>limit\<close> other than \<open>0\<close>, the broker delivers the next entry
  only while fewer than \<open>limit\<close> deliveries are unacknowledged; a delivery starts the
  callback; the calls of the callbacks that have started interleave in any order, and an
  \<open>ack\<close> removes its tag from the unacknowledged ones.
\<close>

record channel =
  ready :: "consume_message list"
  unacknowledged :: "nat list"
  running :: "(nat \<times> event list) list"

definition deliver :: "nat \<Rightarrow> outcomes \<Rightarrow> channel \<Rightarrow> channel option" where
  "deliver limit w c =
     (case ready c of
        [] \<Rightarrow> None
      | m # ms \<Rightarrow>
          if limit = 0 \<or> length (unacknowledged c) < limit
          then Some \<lparr>ready = ms,
                     unacknowledged = unacknowledged c @ [deliveryTag m],
                     running = running c @ [(deliveryTag m, snd (consume_callback w (Some m)))]\<rparr>
          else None)"

definition acknowledge :: "event \<Rightarrow> nat list \<Rightarrow> nat list" where
  "acknowledge e tags = (case e of Did (Ack tag) \<Rightarrow> removeAll tag tags | _ \<Rightarrow> tags)"

definition proceed :: "nat \<Rightarrow> channel \<Rightarrow> channel option" where
  "proceed i c =
     (if i < length (running c) then
        (case running c ! i of
           (tag, []) \<Rightarrow> None
         | (tag, e # todo) \<Rightarrow>
             Some (c\<lparr>running := (running c)[i := (tag, todo)],
                     unacknowledged := acknowledge e (unacknowledged c)\<rparr>))
      else None)"

datatype move = Deliver outcomes | Proceed nat

fun perform :: "nat \<Rightarrow> channel \<Rightarrow> move \<Rightarrow> channel option" where
  "perform limit c (Deliver w) = deliver limit w c"
| "perform limit c (Proceed i) = proceed i c"

fun moves :: "nat \<Rightarrow> channel \<Rightarrow> move list \<Rightarrow> channel option" where
  "moves limit c [] = Some c"
| "moves limit c (x # xs) = (case perform limit c x of None \<Rightarrow> None | Some c' \<Rightarrow> moves limit c' xs)"

text \<open>The prefetch count a run has set: that of its last \<open>prefetch\<close>, \<open>0\<close> (no limit) without one.\<close>

definition prefetch_count :: "event list \<Rightarrow> nat" where
  "prefetch_count t = foldl (\<lambda>n e. case e of Did (Prefetch k) \<Rightarrow> k | _ \<Rightarrow> n) 0 t"

definition subscribed :: "consume_message list \<Rightarrow> channel" where
  "subscribed entries = \<lparr>ready = entries, unacknowledged = [], running = []\<rparr>"

section \<open>Values used in the examples\<close>

text \<open>The two conversions of the engine for the examples, whose inputs never reach them.\<close>

definition reject_all :: "jsstring \<Rightarrow> number" where
  "reject_all s = NaN"

definition no_numeral :: "int \<Rightarrow> jsstring" where
  "no_numeral n = []"

definition empty_database :: database where
  "empty_database = \<lparr>rows = [], next_id = 1\<rparr>"

text \<open>A task as the producer publishes it, a world where every call succeeds and one where
  Lighthouse throws.\<close>

definition example_task :: consume_message where
  "example_task = \<lparr>content = Buffer_from (stringify_task no_numeral (js ''https://example.com'') 42), deliveryTag = 1\<rparr>"

text \<open>
  An entry whose content parses and whose \<open>url\<close> has no text:
  \<open>{"url":{"toString":1},"chatId":42}\<close>.
\<close>

definition no_text :: jsstring where
  "no_text =
     js ''{'' @ QuoteJSONString (js ''url'') @ js '':{'' @ QuoteJSONString (js ''toString'') @
     js '':1},'' @ QuoteJSONString (js ''chatId'') @ js '':42}''"

definition no_text_task :: consume_message where
  "no_text_task = \<lparr>content = Buffer_from no_text, deliveryTag = 3\<rparr>"

definition example_lhr :: lhr where
  "example_lhr =
     \<lparr>finalDisplayedUrl = js ''https://example.com/'', performance_score = Some (Finite 1),
      speed_index = None, first_contentful_paint = None, largest_contentful_paint = None,
      interactive = None\<rparr>"

definition all_succeed :: outcomes where
  "all_succeed =
     \<lparr>launch = Inr 9222, lighthouse = Inr (Some (Some example_lhr)), save_report = None, kill = None,
      generatePDFReport = Inr [0x25, 0x50, 0x44, 0x46], write_pdf = None, sendDocument = None,
      unlink = None\<rparr>"

definition timeout :: exn where
  "timeout = Exn Error (Text (js ''timeout''))"

definition analysis_fails :: outcomes where
  "analysis_fails = all_succeed\<lparr>lighthouse := Inl timeout\<rparr>"

text \<open>Schedules, a clock, and worlds where the first of two dispatches fails.\<close>

definition mornings :: scheduledReports where
  "mornings =
     [(42, \<lparr>schedule_url = js ''https://example.com'', schedule_hour = Finite 9, schedule_minute = Finite 30\<rparr>),
      (7, \<lparr>schedule_url = js ''https://example.org'', schedule_hour = Finite 9, schedule_minute = Finite 31\<rparr>)]"

definition half_past_nine :: clock where
  "half_past_nine = \<lparr>getHours = 9, getMinutes = 30\<rparr>"

definition two_rows :: database where
  "two_rows =
     \<lparr>rows =
        [\<lparr>report_id = 1, report_chatId = 42, report_url = js ''https://example.com'',
          report_hour = Finite 9, report_minute = Finite 30\<rparr>,
         \<lparr>report_id = 2, report_chatId = 7, report_url = js ''https://example.org'',
          report_hour = Finite 9, report_minute = Finite 30\<rparr>],
      next_id = 3\<rparr>"

definition first_send_fails :: "nat \<Rightarrow> amqp_fault" where
  "first_send_fails k = (if k = 0 then Some (At_connect, timeout) else None)"

definition both_mornings :: scheduledReports where
  "both_mornings =
     [(42, \<lparr>schedule_url = js ''https://example.com'', schedule_hour = Finite 9, schedule_minute = Finite 30\<rparr>),
      (7, \<lparr>schedule_url = js ''https://example.org'', schedule_hour = Finite 9, schedule_minute = Finite 30\<rparr>)]"

definition first_analysis_fails :: "nat \<Rightarrow> outcomes" where
  "first_analysis_fails k = (if k = 0 then analysis_fails else all_succeed)"

text \<open>A second task, the moves in which the first callback runs to its end under a failing
  analysis, and the channel after the second delivery.\<close>

definition second_task :: consume_message where
  "second_task = \<lparr>content = Buffer_from (stringify_task no_numeral (js ''https://example.org'') 7), deliveryTag = 2\<rparr>"

definition first_fails_then_second :: "move list" where
  "first_fails_then_second =
     [Deliver analysis_fails, Proceed 0, Proceed 0, Proceed 0, Proceed 0, Proceed 0, Proceed 0]"

definition second_started :: channel where
  "second_started =
     \<lparr>ready = [], unacknowledged = [2],
      running = [(1, []), (2, snd (consume_callback all_succeed (Some second_task)))]\<rparr>"

section \<open>Reading a run\<close>

fun action_of :: "event \<Rightarrow> action" where
  "action_of (Did a) = a"
| "action_of (Failed a e) = a"

definition calls :: "action \<Rightarrow> event list \<Rightarrow> nat" where
  "calls a t = length (filter (\<lambda>e. action_of e = a) t)"

definition published :: "event list \<Rightarrow> byte list list" where
  "published t = concat (map (\<lambda>e. case e of Did (SendToQueue q b) \<Rightarrow> [b] | _ \<Rightarrow> []) t)"

definition wire :: "(int \<Rightarrow> jsstring) \<Rightarrow> ScheduledReport \<Rightarrow> byte list" where
  "wire numeral_of S = Buffer_from (stringify_task numeral_of (report_url S) (report_chatId S))"

definition due_db :: "clock \<Rightarrow> ScheduledReport \<Rightarrow> bool" where
  "due_db T S = (report_hour S = Finite (of_nat (getHours T)) \<and> report_minute S = Finite (of_nat (getMinutes T)))"

lemma calls_append: "calls a (t @ u) = calls a t + calls a u"
  by (simp add: calls_def)

lemma published_append: "published (t @ u) = published t @ published u"
  by (simp add: published_def)

lemmas run_defs = bind_def effect_def call_def try_catch_def try_finally_def throw_def returns_def Let_def

lemma queue_report_no_fault:
  "queue_report numeral_of None S =
     [Did Connect, Did CreateChannel, Did (AssertQueue queue), Did (SendToQueue queue (wire numeral_of S)),
      Did (Console_log (Sent_message (stringify_task numeral_of (report_url S) (report_chatId S)))),
      Did CloseChannel, Did CloseConnection,
      Did (Console_log (Queued_scheduled (report_url S) (report_hour S) (report_minute S) (report_chatId S)))]"
  by (simp add: queue_report_def sendToQueue_def fault_at_def run_defs wire_def)

lemma queue_report_connects: "calls Connect (queue_report numeral_of f S) = 1"
proof (cases f)
  case None
  then show ?thesis by (simp add: queue_report_no_fault calls_def)
next
  case (Some ce)
  obtain c e where "ce = (c, e)" by (cases ce)
  with Some show ?thesis
    by (cases c) (simp_all add: queue_report_def sendToQueue_def fault_at_def run_defs calls_def)
qed

lemma queue_reports_connects: "calls Connect (queue_reports numeral_of fs Ss) = length Ss"
  by (induction Ss arbitrary: fs) (simp_all add: calls_append queue_report_connects, simp add: calls_def)

lemma queue_reports_published:
  "published (queue_reports numeral_of (\<lambda>k. None) Ss) = map (wire numeral_of) Ss"
  by (induction Ss) (simp_all add: published_append queue_report_no_fault, simp_all add: published_def)

lemma fst_bind: "fst (bind m k) = (case fst m of Inl e \<Rightarrow> Inl e | Inr x \<Rightarrow> fst (k x))"
  by (simp add: bind_def split: prod.splits sum.splits)

lemma snd_bind: "snd (bind m k) = snd m @ (case fst m of Inl e \<Rightarrow> [] | Inr x \<Rightarrow> snd (k x))"
  by (simp add: bind_def split: prod.splits sum.splits)

lemma fst_try_catch: "fst (try_catch m h) = (case fst m of Inl e \<Rightarrow> fst (h e) | Inr x \<Rightarrow> Inr x)"
  by (simp add: try_catch_def split: prod.splits sum.splits)

lemma snd_try_catch: "snd (try_catch m h) = snd m @ (case fst m of Inl e \<Rightarrow> snd (h e) | Inr x \<Rightarrow> [])"
  by (simp add: try_catch_def split: prod.splits sum.splits)

lemma fst_try_finally: "fst (try_finally m f) = (case fst f of Inl e \<Rightarrow> Inl e | Inr u \<Rightarrow> fst m)"
  by (simp add: try_finally_def split: prod.splits sum.splits)

lemma snd_try_finally: "snd (try_finally m f) = snd m @ snd f"
  by (simp add: try_finally_def split: prod.splits sum.splits)

lemma fst_effect: "fst (effect f a) = (case f of None \<Rightarrow> Inr () | Some e \<Rightarrow> Inl e)"
  by (simp add: effect_def split: option.splits)

lemma snd_effect: "snd (effect f a) = [case f of None \<Rightarrow> Did a | Some e \<Rightarrow> Failed a e]"
  by (simp add: effect_def split: option.splits)

lemma fst_call: "fst (call r a) = r"
  by (simp add: call_def split: sum.splits)

lemma snd_call: "snd (call r a) = [case r of Inr x \<Rightarrow> Did a | Inl e \<Rightarrow> Failed a e]"
  by (simp add: call_def split: sum.splits)

lemma fst_throw: "fst (throw e) = Inl e" and snd_throw: "snd (throw e) = []"
  and fst_returns: "fst (returns x) = Inr x" and snd_returns: "snd (returns x) = []"
  by (simp_all add: throw_def returns_def)

lemma fst_interpolate: "fst (interpolate v) = (if converts v then Inr () else Inl cannot_convert)"
  and snd_interpolate: "snd (interpolate v) = []"
  by (simp_all add: interpolate_def throw_def returns_def)

lemmas run_simps = fst_bind snd_bind fst_try_catch snd_try_catch fst_try_finally snd_try_finally
  fst_effect snd_effect fst_call snd_call fst_throw snd_throw fst_returns snd_returns
  fst_interpolate snd_interpolate

text \<open>Whether a run returns.\<close>

lemma returns_bind: "(fst (bind m k) = Inr y) = (\<exists>x. fst m = Inr x \<and> fst (k x) = Inr y)"
  by (cases "fst m") (simp_all add: fst_bind)

lemma returns_try_catch:
  "(fst (try_catch m h) = Inr y) = (fst m = Inr y \<or> (\<exists>e. fst m = Inl e \<and> fst (h e) = Inr y))"
  by (cases "fst m") (simp_all add: fst_try_catch)

lemma returns_try_finally:
  "(fst (try_finally m f) = Inr y) = (fst m = Inr y \<and> (\<exists>u. fst f = Inr u))"
  by (cases "fst f") (simp_all add: fst_try_finally)

lemma returns_effect: "(fst (effect f a) = Inr u) = (f = None)"
  by (cases f) (simp_all add: fst_effect)

lemma returns_throw: "(fst (throw e) = Inr y) = False"
  by (simp add: fst_throw)

lemma returns_returns: "(fst (returns x) = Inr y) = (x = y)"
  by (simp add: fst_returns)

lemma returns_interpolate: "(fst (interpolate v) = Inr u) = converts v"
  by (simp add: fst_interpolate)

lemmas returns_simps = returns_bind returns_try_catch returns_try_finally returns_effect fst_call
  returns_throw returns_returns returns_interpolate

text \<open>Whether a call of an action was made, and whether one returned.\<close>

definition called :: "action \<Rightarrow> event list \<Rightarrow> bool" where
  "called a t = (\<exists>e \<in> set t. action_of e = a)"

lemma called_bind:
  "called a (snd (bind m k)) = (called a (snd m) \<or> (\<exists>x. fst m = Inr x \<and> called a (snd (k x))))"
  by (cases "fst m") (auto simp add: snd_bind called_def)

lemma called_try_catch:
  "called a (snd (try_catch m h)) =
     (called a (snd m) \<or> (\<exists>e. fst m = Inl e \<and> called a (snd (h e))))"
  by (cases "fst m") (auto simp add: snd_try_catch called_def)

lemma called_try_finally:
  "called a (snd (try_finally m f)) = (called a (snd m) \<or> called a (snd f))"
  by (auto simp add: snd_try_finally called_def)

lemma called_effect: "called a (snd (effect f b)) = (a = b)"
  by (cases f) (auto simp add: snd_effect called_def)

lemma called_call: "called a (snd (call r b)) = (a = b)"
  by (cases r) (auto simp add: snd_call called_def)

lemma called_throw: "called a (snd (throw e)) = False"
  and called_returns: "called a (snd (returns x)) = False"
  by (simp_all add: snd_throw snd_returns called_def)

lemma called_interpolate: "called a (snd (interpolate v)) = False"
  by (simp add: snd_interpolate called_def)

lemmas called_simps = called_bind called_try_catch called_try_finally called_effect called_call
  called_throw called_returns called_interpolate

lemma did_bind:
  "(Did a \<in> set (snd (bind m k))) =
     (Did a \<in> set (snd m) \<or> (\<exists>x. fst m = Inr x \<and> Did a \<in> set (snd (k x))))"
  by (cases "fst m") (auto simp add: snd_bind)

lemma did_try_catch:
  "(Did a \<in> set (snd (try_catch m h))) =
     (Did a \<in> set (snd m) \<or> (\<exists>e. fst m = Inl e \<and> Did a \<in> set (snd (h e))))"
  by (cases "fst m") (auto simp add: snd_try_catch)

lemma did_try_finally:
  "(Did a \<in> set (snd (try_finally m f))) = (Did a \<in> set (snd m) \<or> Did a \<in> set (snd f))"
  by (auto simp add: snd_try_finally)

lemma did_effect: "(Did a \<in> set (snd (effect f b))) = (f = None \<and> a = b)"
  by (cases f) (auto simp add: snd_effect)

lemma did_call: "(Did a \<in> set (snd (call r b))) = (\<not> isl r \<and> a = b)"
  by (cases r) (auto simp add: snd_call)

lemma did_throw: "(Did a \<in> set (snd (throw e))) = False"
  and did_returns: "(Did a \<in> set (snd (returns x))) = False"
  by (simp_all add: snd_throw snd_returns)

lemma did_interpolate: "(Did a \<in> set (snd (interpolate v))) = False"
  by (simp add: snd_interpolate)

lemmas did_simps = did_bind did_try_catch did_try_finally did_effect did_call did_throw did_returns did_interpolate

lemma calls_none: "(calls a t = 0) = (\<not> called a t)"
  by (auto simp add: calls_def called_def filter_empty_conv)

section \<open>The \<open>/schedule\<close> command\<close>

lemmas handler_eval = schedule_db_def schedule_memory_def parse_time_def js_def element_def
  Number_def safe_digits_def is_digit_def digits_value_def digit_value_def create_def effect_def
  bind_def throw_def usage_def empty_database_def

lemma isNaN_Some: "isNaN (Some n) = (n = NaN)"
  by (cases n) simp_all

lemma isNaN_iff: "\<not> isNaN h \<longleftrightarrow> (\<exists>n. h = Some n \<and> n \<noteq> NaN)"
  by (cases h) (simp_all add: isNaN_Some)

lemma falsy_iff: "\<not> falsy u \<longleftrightarrow> (\<exists>s. u = Some s \<and> s \<noteq> [])"
  by (cases u) simp_all

lemma element_in_range: "i < length xs \<Longrightarrow> element xs i = Some (xs ! i)"
  by (simp add: element_def)

lemma element_out_of_range: "length xs \<le> i \<Longrightarrow> element xs i = None"
  by (simp add: element_def)

text \<open>
  C9, as the code has it: the handler checks only that the URL is not empty and that
  the hour and the minute are not \<open>NaN\<close>; it checks no range. The input
  \<open>/schedule http://x 25:99\<close> stores a schedule with hour 25 and minute 99, in the
  database and in memory.
\<close>

theorem out_of_range_schedule_stored:
  "rows (snd (schedule_db reject_all None (js ''/schedule http://x 25:99'') 7 empty_database)) =
     [\<lparr>report_id = 1, report_chatId = 7, report_url = js ''http://x'',
       report_hour = Finite 25, report_minute = Finite 99\<rparr>] \<and>
   snd (schedule_memory reject_all (js ''/schedule http://x 25:99'') 7 []) =
     [(7, \<lparr>schedule_url = js ''http://x'', schedule_hour = Finite 25, schedule_minute = Finite 99\<rparr>)]"
  by (simp add: handler_eval)

text \<open>
  C9, amended: a call of the handler leaves the stored schedules as they were, or adds one
  for this chat whose URL is not empty and whose hour and minute are numbers other than
  \<open>NaN\<close>.
\<close>

theorem stored_schedule_is_numeric:
  "(rows (snd (schedule_db engine create_fault text chat db)) = rows db \<or>
    (\<exists>r. rows (snd (schedule_db engine create_fault text chat db)) = rows db @ [r] \<and>
         report_chatId r = chat \<and> report_url r \<noteq> [] \<and>
         report_hour r \<noteq> NaN \<and> report_minute r \<noteq> NaN)) \<and>
   (snd (schedule_memory engine text chat reports) = reports \<or>
    (\<exists>s. snd (schedule_memory engine text chat reports) = assign chat s reports \<and>
         schedule_url s \<noteq> [] \<and> schedule_hour s \<noteq> NaN \<and> schedule_minute s \<noteq> NaN))"
  by (auto simp add: schedule_db_def schedule_memory_def Let_def create_def isNaN_iff falsy_iff
      split: option.splits prod.splits)

text \<open>
  C10, as the code has it: with an empty URL token (two spaces after the command) and a
  valid time, the handler answers with the usage line although neither the hour nor
  the minute is \<open>NaN\<close>.
\<close>

theorem usage_with_valid_time:
  "split 0x20 (js ''/schedule  9:30'') = [js ''/schedule'', [], js ''9:30''] \<and>
   parse_time reject_all (js ''9:30'') = (Some (Finite 9), Some (Finite 30)) \<and>
   fst (schedule_db reject_all None (js ''/schedule  9:30'') 7 empty_database) =
     (Inr (), [Did (Reply 7 usage)]) \<and>
   fst (schedule_memory reject_all (js ''/schedule  9:30'') 7 []) =
     (Inr (), [Did (Reply 7 usage)])"
  by (simp add: handler_eval)

text \<open>
  C10, amended: with fewer than three tokens the handler throws the \<open>TypeError\<close> of
  \<open>time.split\<close> and does nothing else; with a time token, it answers with the usage
  line exactly when the URL token is empty or the hour or the minute is \<open>NaN\<close> (the
  minute of a time without a colon is \<open>undefined\<close>, which counts as \<open>NaN\<close>).
\<close>

theorem usage_reply_reachability:
  "(length (split 0x20 text) < 3 \<longrightarrow>
      schedule_db engine create_fault text chat db = (throw undefined_split, db) \<and>
      schedule_memory engine text chat reports = (throw undefined_split, reports)) \<and>
   (3 \<le> length (split 0x20 text) \<longrightarrow>
      (Did (Reply chat usage) \<in> set (snd (fst (schedule_db engine create_fault text chat db)))) =
        (split 0x20 text ! 1 = [] \<or>
         isNaN (fst (parse_time engine (split 0x20 text ! 2))) \<or>
         isNaN (snd (parse_time engine (split 0x20 text ! 2)))) \<and>
      (Did (Reply chat usage) \<in> set (snd (fst (schedule_memory engine text chat reports)))) =
        (split 0x20 text ! 1 = [] \<or>
         isNaN (fst (parse_time engine (split 0x20 text ! 2))) \<or>
         isNaN (snd (parse_time engine (split 0x20 text ! 2)))))"
proof (intro conjI impI)
  assume short: "length (split 0x20 text) < 3"
  then have "element (split 0x20 text) 2 = None"
    by (simp add: element_out_of_range)
  then show "schedule_db engine create_fault text chat db = (throw undefined_split, db)"
    and "schedule_memory engine text chat reports = (throw undefined_split, reports)"
    by (simp_all add: schedule_db_def schedule_memory_def)
next
  assume long: "3 \<le> length (split 0x20 text)"
  then have t: "element (split 0x20 text) 2 = Some (split 0x20 text ! 2)"
    and u: "element (split 0x20 text) (Suc 0) = Some (split 0x20 text ! Suc 0)"
    by (simp_all add: element_in_range)
  show "(Did (Reply chat usage) \<in> set (snd (fst (schedule_db engine create_fault text chat db)))) =
        (split 0x20 text ! 1 = [] \<or>
         isNaN (fst (parse_time engine (split 0x20 text ! 2))) \<or>
         isNaN (snd (parse_time engine (split 0x20 text ! 2))))"
    by (cases create_fault)
      (auto simp add: schedule_db_def Let_def t u effect_def bind_def throw_def usage_def
        split: prod.splits)
  show "(Did (Reply chat usage) \<in> set (snd (fst (schedule_memory engine text chat reports)))) =
        (split 0x20 text ! 1 = [] \<or>
         isNaN (fst (parse_time engine (split 0x20 text ! 2))) \<or>
         isNaN (snd (parse_time engine (split 0x20 text ! 2))))"
    by (auto simp add: schedule_memory_def Let_def t u effect_def usage_def split: prod.splits)
qed

theorem usage_reply_reachability_witness:
  "schedule_db reject_all None (js ''/schedule http://x'') 7 empty_database =
     (throw undefined_split, empty_database) \<and>
   schedule_memory reject_all (js ''/schedule http://x'') 7 [] = (throw undefined_split, []) \<and>
   Did (Reply 7 usage) \<in>
     set (snd (fst (schedule_db reject_all None (js ''/schedule http://x 9'') 7 empty_database))) \<and>
   Did (Reply 7 usage) \<in>
     set (snd (fst (schedule_memory reject_all (js ''/schedule http://x 9'') 7 [])))"
proof -
  have short: "length (split 0x20 (js ''/schedule http://x'')) < 3"
    by (simp add: js_def)
  have long: "3 \<le> length (split 0x20 (js ''/schedule http://x 9''))"
    by (simp add: js_def)
  have minute: "isNaN (snd (parse_time reject_all (split 0x20 (js ''/schedule http://x 9'') ! 2)))"
    by (simp add: js_def parse_time_def element_def)
  from usage_reply_reachability [of "js ''/schedule http://x''" reject_all None 7 empty_database "[]"]
    short
  have a: "schedule_db reject_all None (js ''/schedule http://x'') 7 empty_database =
     (throw undefined_split, empty_database) \<and>
     schedule_memory reject_all (js ''/schedule http://x'') 7 [] = (throw undefined_split, [])"
    by blast
  from usage_reply_reachability [of "js ''/schedule http://x 9''" reject_all None 7 empty_database "[]"]
    long minute
  have b: "Did (Reply 7 usage) \<in>
     set (snd (fst (schedule_db reject_all None (js ''/schedule http://x 9'') 7 empty_database))) \<and>
   Did (Reply 7 usage) \<in>
     set (snd (fst (schedule_memory reject_all (js ''/schedule http://x 9'') 7 [])))"
    by blast
  from a b show ?thesis by blast
qed

section \<open>The wire format round trip\<close>

subsection \<open>UTF-8\<close>

lemma byte_unat: "n < 256 \<Longrightarrow> unat (of_nat n :: byte) = n"
  by (simp add: unat_of_nat)

lemma unit_unat: "n < 65536 \<Longrightarrow> unat (of_nat n :: code_unit) = n"
  by (simp add: unat_of_nat)

lemmas byte_compare = word_less_nat_alt [where 'a = 8] word_le_nat_alt [where 'a = 8]
  word_unat_eq_iff [where 'a = 8]

lemma toString_one:
  "unat b < 0x80 \<Longrightarrow> toString (b # bs) = of_nat (unat b) # toString bs"
  by (simp add: byte_compare)

lemma toString_two:
  "0xC2 \<le> unat b \<Longrightarrow> unat b \<le> 0xDF \<Longrightarrow> 0x80 \<le> unat b1 \<Longrightarrow> unat b1 \<le> 0xBF \<Longrightarrow>
   toString (b # b1 # bs) = code_units ((unat b - 0xC0) * 64 + (unat b1 - 0x80)) @ toString bs"
  by (simp add: byte_compare continuation_def)

lemma toString_three:
  "0xE0 \<le> unat b \<Longrightarrow> unat b \<le> 0xEF \<Longrightarrow>
   (if unat b = 0xE0 then 0xA0 else 0x80) \<le> unat b1 \<Longrightarrow>
   unat b1 \<le> (if unat b = 0xED then 0x9F else 0xBF) \<Longrightarrow>
   0x80 \<le> unat b2 \<Longrightarrow> unat b2 \<le> 0xBF \<Longrightarrow>
   toString (b # b1 # b2 # bs) =
     code_units ((unat b - 0xE0) * 4096 + (unat b1 - 0x80) * 64 + (unat b2 - 0x80)) @ toString bs"
  by (simp add: byte_compare continuation_def second_of_three_def split: if_splits)

lemma toString_four:
  "0xF0 \<le> unat b \<Longrightarrow> unat b \<le> 0xF4 \<Longrightarrow>
   (if unat b = 0xF0 then 0x90 else 0x80) \<le> unat b1 \<Longrightarrow>
   unat b1 \<le> (if unat b = 0xF4 then 0x8F else 0xBF) \<Longrightarrow>
   0x80 \<le> unat b2 \<Longrightarrow> unat b2 \<le> 0xBF \<Longrightarrow> 0x80 \<le> unat b3 \<Longrightarrow> unat b3 \<le> 0xBF \<Longrightarrow>
   toString (b # b1 # b2 # b3 # bs) =
     code_units ((unat b - 0xF0) * 262144 + (unat b1 - 0x80) * 4096 + (unat b2 - 0x80) * 64 +
                 (unat b3 - 0x80)) @ toString bs"
  by (simp add: byte_compare continuation_def second_of_four_def split: if_splits)

lemma split3: "(cp::nat) div 4096 * 4096 + cp div 64 mod 64 * 64 + cp mod 64 = cp"
proof -
  have "cp mod (64 * 64) = 64 * (cp div 64 mod 64) + cp mod 64" by (rule mod_mult2_eq)
  then have "cp div 64 mod 64 * 64 + cp mod 64 = cp mod 4096" by simp
  then show ?thesis by (simp add: add.assoc)
qed

lemma split4: "(cp::nat) div 262144 * 262144 + cp div 4096 mod 64 * 4096 + cp div 64 mod 64 * 64 + cp mod 64 = cp"
proof -
  have "cp mod (4096 * 64) = 4096 * (cp div 4096 mod 64) + cp mod 4096" by (rule mod_mult2_eq)
  moreover have "cp mod (64 * 64) = 64 * (cp div 64 mod 64) + cp mod 64" by (rule mod_mult2_eq)
  ultimately have "cp div 4096 mod 64 * 4096 + cp div 64 mod 64 * 64 + cp mod 64 = cp mod 262144" by simp
  then show ?thesis by (simp add: add.assoc)
qed


lemma two_ranges:
  assumes "0x80 \<le> (cp::nat)" "cp < 0x800"
  shows "2 \<le> cp div 64" "cp div 64 \<le> 31"
  using assms by arith+

lemma digit_low: "(q::nat) div 64 = 0 \<Longrightarrow> n \<le> q \<Longrightarrow> n \<le> q mod 64"
  by (simp add: div_eq_0_iff)

lemma digit_high: "(q::nat) div 64 = k \<Longrightarrow> q < k * 64 + n \<Longrightarrow> q mod 64 < n"
  using div_mult_mod_eq [of q 64] by linarith

lemma three_ranges:
  assumes "0x800 \<le> (cp::nat)" "cp < 0x10000" "cp < 0xD800 \<or> 0xDFFF < cp"
  shows "cp div 4096 \<le> 15"
    and "cp div 4096 = 0 \<Longrightarrow> 32 \<le> cp div 64 mod 64"
    and "cp div 4096 = 13 \<Longrightarrow> cp div 64 mod 64 \<le> 31"
proof -
  define q where "q = cp div 64"
  have q: "32 \<le> q" "q < 1024" "q < 864 \<or> 896 \<le> q"
    using assms unfolding q_def by arith+
  have d: "cp div 4096 = q div 64"
    unfolding q_def by (simp add: div_mult2_eq)
  show "cp div 4096 \<le> 15" unfolding d using q by arith
  show "32 \<le> cp div 64 mod 64" if "cp div 4096 = 0"
    using that q(1) unfolding d q_def [symmetric] by (rule digit_low)
  show "cp div 64 mod 64 \<le> 31" if h: "cp div 4096 = 13"
  proof -
    from h have h': "q div 64 = 13" by (simp add: d)
    with q(2) have "q < 14 * 64" by (simp add: less_mult_imp_div_less)
    with q(3) have "q < 13 * 64 + 32" by arith
    from digit_high [OF h' this] show ?thesis unfolding q_def by simp
  qed
qed

lemma four_ranges:
  assumes "0x10000 \<le> (cp::nat)" "cp < 0x110000"
  shows "cp div 262144 \<le> 4"
    and "cp div 262144 = 0 \<Longrightarrow> 16 \<le> cp div 4096 mod 64"
    and "cp div 262144 = 4 \<Longrightarrow> cp div 4096 mod 64 \<le> 15"
proof -
  define q where "q = cp div 4096"
  have q: "16 \<le> q" "q < 272"
    using assms unfolding q_def by arith+
  have d: "cp div 262144 = q div 64"
    unfolding q_def by (simp add: div_mult2_eq)
  show "cp div 262144 \<le> 4" unfolding d using q by arith
  show "16 \<le> cp div 4096 mod 64" if "cp div 262144 = 0"
    using that q(1) unfolding d q_def [symmetric] by (rule digit_low)
  show "cp div 4096 mod 64 \<le> 15" if h: "cp div 262144 = 4"
  proof -
    from h have h': "q div 64 = 4" by (simp add: d)
    from q(2) have "q < 4 * 64 + 16" by simp
    from digit_high [OF h' this] show ?thesis unfolding q_def by simp
  qed
qed

lemma mod64: "(n::nat) mod 64 \<le> 63"
  by simp

definition scalar :: "nat \<Rightarrow> bool" where
  "scalar cp = (cp < 0x110000 \<and> \<not> (0xD800 \<le> cp \<and> cp \<le> 0xDFFF))"

lemma toString_utf8:
  assumes "scalar cp"
  shows "toString (utf8 cp @ bs) = code_units cp @ toString bs"
proof -
  consider (one) "cp < 0x80" | (two) "0x80 \<le> cp" "cp < 0x800"
    | (three) "0x800 \<le> cp" "cp < 0x10000" | (four) "0x10000 \<le> cp"
    by linarith
  then show ?thesis
  proof cases
    case one
    then have b: "unat (of_nat cp :: byte) = cp" by (intro byte_unat) simp
    from one have u: "utf8 cp = [of_nat cp]" by (simp add: utf8_def)
    show ?thesis
      unfolding u using one
      by (simp only: append.simps toString_one b of_nat_unat) (simp add: b code_units_def)
  next
    case two
    note r = two_ranges [OF two] mod64 [of cp]
    have b: "unat (of_nat (0xC0 + cp div 64) :: byte) = 0xC0 + cp div 64"
      using r by (intro byte_unat) linarith
    have b1: "unat (of_nat (0x80 + cp mod 64) :: byte) = 0x80 + cp mod 64"
      using r by (intro byte_unat) linarith
    from two have u: "utf8 cp = [of_nat (0xC0 + cp div 64), of_nat (0x80 + cp mod 64)]"
      by (simp add: utf8_def)
    have "toString (of_nat (0xC0 + cp div 64) # of_nat (0x80 + cp mod 64) # bs) =
        code_units ((unat (of_nat (0xC0 + cp div 64) :: byte) - 0xC0) * 64 +
                    (unat (of_nat (0x80 + cp mod 64) :: byte) - 0x80)) @ toString bs"
      by (rule toString_two; unfold b b1; use r in linarith)
    also have "(unat (of_nat (0xC0 + cp div 64) :: byte) - 0xC0) * 64 +
                    (unat (of_nat (0x80 + cp mod 64) :: byte) - 0x80) = cp"
      unfolding b b1 by simp
    finally show ?thesis unfolding u by (simp only: append.simps)
  next
    case three
    with assms have ns: "cp < 0xD800 \<or> 0xDFFF < cp" by (simp add: scalar_def) linarith
    note r = three_ranges [OF three ns] mod64 [of cp] mod64 [of "cp div 64"]
    have b: "unat (of_nat (0xE0 + cp div 4096) :: byte) = 0xE0 + cp div 4096"
      using r(1) by (intro byte_unat) linarith
    have b1: "unat (of_nat (0x80 + cp div 64 mod 64) :: byte) = 0x80 + cp div 64 mod 64"
      using r(5) by (intro byte_unat) linarith
    have b2: "unat (of_nat (0x80 + cp mod 64) :: byte) = 0x80 + cp mod 64"
      using r(4) by (intro byte_unat) linarith
    from three have u: "utf8 cp =
        [of_nat (0xE0 + cp div 4096), of_nat (0x80 + cp div 64 mod 64), of_nat (0x80 + cp mod 64)]"
      by (simp add: utf8_def)
    have low: "(if 0xE0 + cp div 4096 = 0xE0 then 0xA0 else 0x80) \<le> 0x80 + cp div 64 mod 64"
      using r(2) by (simp split: if_splits)
    have high: "0x80 + cp div 64 mod 64 \<le> (if 0xE0 + cp div 4096 = 0xED then 0x9F else 0xBF)"
      using r(3) r(5) by (simp split: if_splits)
    have "toString (of_nat (0xE0 + cp div 4096) # of_nat (0x80 + cp div 64 mod 64) #
                    of_nat (0x80 + cp mod 64) # bs) =
        code_units ((unat (of_nat (0xE0 + cp div 4096) :: byte) - 0xE0) * 4096 +
                    (unat (of_nat (0x80 + cp div 64 mod 64) :: byte) - 0x80) * 64 +
                    (unat (of_nat (0x80 + cp mod 64) :: byte) - 0x80)) @ toString bs"
    proof (rule toString_three; unfold b b1 b2)
      show "0xE0 \<le> 0xE0 + cp div 4096" by simp
      show "0xE0 + cp div 4096 \<le> 0xEF" using r(1) by linarith
      show "(if 0xE0 + cp div 4096 = 0xE0 then 0xA0 else 0x80) \<le> 0x80 + cp div 64 mod 64"
        by (rule low)
      show "0x80 + cp div 64 mod 64 \<le> (if 0xE0 + cp div 4096 = 0xED then 0x9F else 0xBF)"
        by (rule high)
      show "0x80 \<le> 0x80 + cp mod 64" by simp
      show "0x80 + cp mod 64 \<le> 0xBF" using r(4) by linarith
    qed
    also have "(unat (of_nat (0xE0 + cp div 4096) :: byte) - 0xE0) * 4096 +
                    (unat (of_nat (0x80 + cp div 64 mod 64) :: byte) - 0x80) * 64 +
                    (unat (of_nat (0x80 + cp mod 64) :: byte) - 0x80) = cp"
      unfolding b b1 b2 using split3 [of cp] by simp
    finally show ?thesis unfolding u by (simp only: append.simps)
  next
    case four
    with assms have lt: "cp < 0x110000" by (simp add: scalar_def)
    note r = four_ranges [OF four lt] mod64 [of cp] mod64 [of "cp div 64"] mod64 [of "cp div 4096"]
    have b: "unat (of_nat (0xF0 + cp div 262144) :: byte) = 0xF0 + cp div 262144"
      using r(1) by (intro byte_unat) linarith
    have b1: "unat (of_nat (0x80 + cp div 4096 mod 64) :: byte) = 0x80 + cp div 4096 mod 64"
      using r(6) by (intro byte_unat) linarith
    have b2: "unat (of_nat (0x80 + cp div 64 mod 64) :: byte) = 0x80 + cp div 64 mod 64"
      using r(5) by (intro byte_unat) linarith
    have b3: "unat (of_nat (0x80 + cp mod 64) :: byte) = 0x80 + cp mod 64"
      using r(4) by (intro byte_unat) linarith
    from four have u: "utf8 cp =
        [of_nat (0xF0 + cp div 262144), of_nat (0x80 + cp div 4096 mod 64),
         of_nat (0x80 + cp div 64 mod 64), of_nat (0x80 + cp mod 64)]"
      by (simp add: utf8_def)
    have low: "(if 0xF0 + cp div 262144 = 0xF0 then 0x90 else 0x80) \<le> 0x80 + cp div 4096 mod 64"
      using r(2) by (simp split: if_splits)
    have high: "0x80 + cp div 4096 mod 64 \<le> (if 0xF0 + cp div 262144 = 0xF4 then 0x8F else 0xBF)"
      using r(3) r(6) by (simp split: if_splits)
    have "toString (of_nat (0xF0 + cp div 262144) # of_nat (0x80 + cp div 4096 mod 64) #
                    of_nat (0x80 + cp div 64 mod 64) # of_nat (0x80 + cp mod 64) # bs) =
        code_units ((unat (of_nat (0xF0 + cp div 262144) :: byte) - 0xF0) * 262144 +
                    (unat (of_nat (0x80 + cp div 4096 mod 64) :: byte) - 0x80) * 4096 +
                    (unat (of_nat (0x80 + cp div 64 mod 64) :: byte) - 0x80) * 64 +
                    (unat (of_nat (0x80 + cp mod 64) :: byte) - 0x80)) @ toString bs"
    proof (rule toString_four; unfold b b1 b2 b3)
      show "0xF0 \<le> 0xF0 + cp div 262144" by simp
      show "0xF0 + cp div 262144 \<le> 0xF4" using r(1) by linarith
      show "(if 0xF0 + cp div 262144 = 0xF0 then 0x90 else 0x80) \<le> 0x80 + cp div 4096 mod 64"
        by (rule low)
      show "0x80 + cp div 4096 mod 64 \<le> (if 0xF0 + cp div 262144 = 0xF4 then 0x8F else 0xBF)"
        by (rule high)
      show "0x80 \<le> 0x80 + cp div 64 mod 64" by simp
      show "0x80 + cp div 64 mod 64 \<le> 0xBF" using r(5) by linarith
      show "0x80 \<le> 0x80 + cp mod 64" by simp
      show "0x80 + cp mod 64 \<le> 0xBF" using r(4) by linarith
    qed
    also have "(unat (of_nat (0xF0 + cp div 262144) :: byte) - 0xF0) * 262144 +
                    (unat (of_nat (0x80 + cp div 4096 mod 64) :: byte) - 0x80) * 4096 +
                    (unat (of_nat (0x80 + cp div 64 mod 64) :: byte) - 0x80) * 64 +
                    (unat (of_nat (0x80 + cp mod 64) :: byte) - 0x80) = cp"
      unfolding b b1 b2 b3 using split4 [of cp] by simp
    finally show ?thesis unfolding u by (simp only: append.simps)
  qed
qed

lemmas unit_compare = word_less_nat_alt [where 'a = 16] word_le_nat_alt [where 'a = 16]

lemma unat_unit_less: "unat (c :: code_unit) < 65536"
  using unsigned_less [of c] by simp

lemma unit_scalar:
  assumes "\<not> is_lead c" "\<not> is_trail c"
  shows "scalar (unit_code_point c)" and "code_units (unit_code_point c) = [c]"
  using assms unat_unit_less [of c]
  by (auto simp add: scalar_def unit_code_point_def code_units_def is_lead_def is_trail_def
      unit_compare)

lemma pair_scalar:
  assumes "is_lead c" "is_trail d"
  shows "scalar (pair_code_point c d)" and "code_units (pair_code_point c d) = [c, d]"
proof -
  define x where "x = unat c - 0xD800"
  define y where "y = unat d - 0xDC00"
  have c: "unat c = 0xD800 + x" and x: "x < 0x400"
    using assms(1) by (auto simp add: x_def is_lead_def unit_compare)
  have d: "unat d = 0xDC00 + y" and y: "y < 0x400"
    using assms(2) by (auto simp add: y_def is_trail_def unit_compare)
  have p: "pair_code_point c d = 0x10000 + (x * 0x400 + y)"
    by (simp add: pair_code_point_def x_def y_def)
  from x have "x * 0x400 + y < 0x400 * 0x400" using y by linarith
  then show "scalar (pair_code_point c d)"
    by (simp add: p scalar_def)
  have "(x * 0x400 + y) div 0x400 = x" "(x * 0x400 + y) mod 0x400 = y"
    using y by simp_all
  then have "code_units (pair_code_point c d) = [of_nat (unat c), of_nat (unat d)]"
    by (simp add: p code_units_def c d)
  then show "code_units (pair_code_point c d) = [c, d]" by simp
qed

fun well_formed :: "jsstring \<Rightarrow> bool" where
  "well_formed [] = True"
| "well_formed [c] = (\<not> is_lead c \<and> \<not> is_trail c)"
| "well_formed (c # d # cs) =
     (if is_lead c \<and> is_trail d then well_formed cs
      else \<not> is_lead c \<and> \<not> is_trail c \<and> well_formed (d # cs))"

lemma toString_Buffer_from: "well_formed s \<Longrightarrow> toString (Buffer_from s) = s"
proof (induction s rule: Buffer_from.induct)
  case 1
  show ?case by simp
next
  case (2 c)
  then show ?case
    using toString_utf8 [of "unit_code_point c" "[]"] by (simp add: unit_scalar)
next
  case (3 c d cs)
  show ?case
  proof (cases "is_lead c \<and> is_trail d")
    case True
    with 3 show ?thesis by (simp add: toString_utf8 pair_scalar)
  next
    case False
    with 3 show ?thesis by (simp add: toString_utf8 unit_scalar)
  qed
qed

subsection \<open>String literals\<close>

lemma unat_hex_digit:
  assumes "n < 16"
  shows "unat (hex_digit n) = (if n < 10 then 48 + n else 87 + n)"
proof (cases "n < 10")
  case True
  then have "unat (of_nat (48 + n) :: code_unit) = 48 + n" by (intro unit_unat) linarith
  with True show ?thesis by (simp only: hex_digit_def if_True)
next
  case False
  from assms have "unat (of_nat (87 + n) :: code_unit) = 87 + n" by (intro unit_unat) linarith
  with False show ?thesis by (simp only: hex_digit_def if_False)
qed

lemma hex_value_hex_digit: "n < 16 \<Longrightarrow> hex_value (hex_digit n) = Some n"
  by (auto simp add: hex_value_def unit_compare unat_hex_digit)

lemma split16: "(n::nat) div 4096 * 4096 + n div 256 mod 16 * 256 + n div 16 mod 16 * 16 + n mod 16 = n"
proof -
  have "n mod (256 * 16) = 256 * (n div 256 mod 16) + n mod 256" by (rule mod_mult2_eq)
  moreover have "n mod (16 * 16) = 16 * (n div 16 mod 16) + n mod 16" by (rule mod_mult2_eq)
  ultimately have "n div 256 mod 16 * 256 + n div 16 mod 16 * 16 + n mod 16 = n mod 4096" by simp
  then show ?thesis by (simp add: add.assoc)
qed

lemma hex4_unicode_escape:
  "hex4 (hex_digit (unat c div 4096)) (hex_digit (unat c div 256 mod 16))
        (hex_digit (unat c div 16 mod 16)) (hex_digit (unat c mod 16)) = Some c"
proof -
  have "unat c div 4096 < 16"
    using unat_unit_less [of c] by (simp add: less_mult_imp_div_less)
  then show ?thesis
    using split16 [of "unat c"] by (simp add: hex4_def hex_value_hex_digit)
qed

lemma string_characters_escape:
  "string_characters (unicode_escape c @ r) = prepend c (string_characters r)"
  by (simp add: unicode_escape_def hex4_unicode_escape)

lemma string_characters_quote_unit:
  "string_characters (quote_unit c @ r) = prepend c (string_characters r)"
  by (simp add: quote_unit_def string_characters_escape escaped_def)

lemma string_characters_pair:
  "is_lead c \<Longrightarrow> is_trail d \<Longrightarrow>
   string_characters (c # d # r) = prepend c (prepend d (string_characters r))"
  by (auto simp add: is_lead_def is_trail_def unit_compare word_unat_eq_iff)

lemma prepend_Some_eq: "prepend c (Some (s, rest)) = Some (c # s, rest)"
  by (simp add: prepend_def)

lemma string_characters_quote_units:
  "string_characters (quote_units s @ 0x22 # rest) = Some (s, rest)"
proof (induction s rule: quote_units.induct)
  case 1
  show ?case by simp
next
  case (2 c)
  have "string_characters (0x22 # rest) = Some ([], rest)" by simp
  then show ?case
    by (simp add: string_characters_quote_unit prepend_Some_eq del: string_characters.simps)
next
  case (3 c d cs)
  show ?case
  proof (cases "is_lead c \<and> is_trail d")
    case True
    with 3 show ?thesis
      by (simp add: string_characters_pair prepend_Some_eq del: string_characters.simps)
  next
    case False
    then have q: "quote_units (c # d # cs) = quote_unit c @ quote_units (d # cs)"
      by (simp only: quote_units.simps if_False)
    from 3(2) [OF False] show ?thesis
      unfolding q
      by (simp add: string_characters_quote_unit prepend_Some_eq del: string_characters.simps)
  qed
qed

definition plain :: "code_unit \<Rightarrow> bool" where
  "plain c = (\<not> is_lead c \<and> \<not> is_trail c)"

lemma well_formed_plain: "plain c \<Longrightarrow> well_formed (c # t) = well_formed t"
  by (cases t) (simp_all add: plain_def)

lemma well_formed_pair: "is_lead c \<Longrightarrow> is_trail d \<Longrightarrow> well_formed (c # d # t) = well_formed t"
  by simp

lemma well_formed_plains: "list_all plain x \<Longrightarrow> well_formed (x @ t) = well_formed t"
  by (induction x) (simp_all add: well_formed_plain)

lemma plain_ascii: "unat c < 0xD800 \<Longrightarrow> plain c"
  by (simp add: plain_def is_lead_def is_trail_def unit_compare)

lemma plain_hex_digit: "n < 16 \<Longrightarrow> plain (hex_digit n)"
  by (rule plain_ascii) (simp add: unat_hex_digit)

lemma plain_quote_unit: "list_all plain (quote_unit c)"
proof -
  have "unat c div 4096 < 16"
    using unat_unit_less [of c] by (simp add: less_mult_imp_div_less)
  then have "list_all plain (unicode_escape c)"
    by (simp add: unicode_escape_def plain_hex_digit plain_ascii)
  then show ?thesis
    by (auto simp add: quote_unit_def plain_def is_lead_def is_trail_def)
qed

lemma well_formed_quote_units: "well_formed (quote_units s @ t) = well_formed t"
proof (induction s rule: quote_units.induct)
  case 1
  show ?case by simp
next
  case (2 c)
  show ?case by (simp add: well_formed_plains plain_quote_unit)
next
  case (3 c d cs)
  show ?case
  proof (cases "is_lead c \<and> is_trail d")
    case True
    with 3 show ?thesis by simp
  next
    case False
    then have q: "quote_units (c # d # cs) = quote_unit c @ quote_units (d # cs)"
      by (simp only: quote_units.simps if_False)
    from 3(2) [OF False] show ?thesis
      unfolding q by (simp add: well_formed_plains plain_quote_unit del: well_formed.simps)
  qed
qed

subsection \<open>Number literals\<close>

lemma unat_digit: "k < 10 \<Longrightarrow> unat (48 + word_of_nat k :: code_unit) = 48 + k"
proof -
  assume k: "k < 10"
  have "(48 + word_of_nat k :: code_unit) = of_nat (48 + k)" by simp
  also have "unat \<dots> = 48 + k" using k by (intro unit_unat) linarith
  finally show ?thesis .
qed

lemma is_digit_digit: "k < 10 \<Longrightarrow> is_digit (48 + word_of_nat k)"
  by (simp add: is_digit_def unit_compare unat_digit)

lemma digit_value_digit: "k < 10 \<Longrightarrow> digit_value (48 + word_of_nat k) = k"
  by (simp add: digit_value_def unat_digit)

lemma digit_not_zero: "k < 10 \<Longrightarrow> 0 < k \<Longrightarrow> (48 + word_of_nat k :: code_unit) \<noteq> 0x30"
  by (simp add: word_unat_eq_iff unat_digit)

lemma digit_not_zero': "k < 10 \<Longrightarrow> 0 < k \<Longrightarrow> (word_of_nat k :: code_unit) \<noteq> 0"
  using unit_unat [of k] by (auto simp add: word_unat_eq_iff)

lemma digit_not_minus: "k < 10 \<Longrightarrow> (48 + word_of_nat k :: code_unit) \<noteq> 0x2D"
  by (simp add: word_unat_eq_iff unat_digit)

lemma digits_all: "list_all is_digit (digits n)"
  by (induction n rule: digits.induct) (subst digits.simps, simp add: is_digit_digit)

lemma digits_not_empty: "digits n \<noteq> []"
  by (subst digits.simps) simp

lemma digits_value_append: "digits_value (s @ [c]) = 10 * digits_value s + digit_value c"
  by (simp add: digits_value_def)

lemma digits_value_digits: "digits_value (digits n) = n"
proof (induction n rule: digits.induct)
  case (1 n)
  show ?case
  proof (cases "n < 10")
    case True
    then show ?thesis
      by (subst digits.simps) (simp add: digits_value_def digit_value_digit)
  next
    case False
    with 1 show ?thesis
      by (subst digits.simps) (simp add: digits_value_append digit_value_digit)
  qed
qed

lemma digits_hd: "0 < n \<Longrightarrow> hd (digits n) \<noteq> 0x30"
proof (induction n rule: digits.induct)
  case (1 n)
  show ?case
  proof (cases "n < 10")
    case True
    with "1.prems" show ?thesis
      by (subst digits.simps) (simp add: digit_not_zero')
  next
    case False
    then have "0 < n div 10" by simp
    with 1 False show ?thesis
      by (subst digits.simps) (simp add: digits_not_empty)
  qed
qed

lemma digits_hd_digit: "is_digit (hd (digits n))"
  using digits_all [of n] digits_not_empty [of n] by (cases "digits n") simp_all

lemma is_digit_plain: "is_digit c \<Longrightarrow> plain c"
  by (simp add: is_digit_def plain_def is_lead_def is_trail_def unit_compare)

lemma digits_plain: "list_all plain (digits n)"
  using digits_all [of n] by (induction "digits n") (auto simp add: list_all_iff is_digit_plain)

lemma takeWhile_digits:
  "\<not> is_digit c \<Longrightarrow> takeWhile is_digit (digits n @ c # r) = digits n"
  "\<not> is_digit c \<Longrightarrow> dropWhile is_digit (digits n @ c # r) = c # r"
  using digits_all [of n] by (simp_all add: list_all_iff takeWhile_append2 dropWhile_append2)

lemma integer_part_digits:
  assumes "\<not> is_digit c"
  shows "integer_part (digits n @ c # r) = Some (digits n, c # r)"
proof (cases "n = 0")
  case True
  then show ?thesis by (simp add: digits.simps [of 0] integer_part_def)
next
  case False
  obtain d ds where d: "digits n = d # ds"
    using digits_not_empty [of n] by (cases "digits n") auto
  from False digits_hd [of n] d have nz: "d \<noteq> 0x30" by simp
  from digits_hd_digit [of n] d have dg: "is_digit d" by simp
  have "integer_part (d # ds @ c # r) =
      Some (takeWhile is_digit (d # ds @ c # r), dropWhile is_digit (d # ds @ c # r))"
    using nz dg by (simp add: integer_part_def)
  then show ?thesis
    using takeWhile_digits [OF assms, of n r] by (simp add: d)
qed

lemma number_literal_digits:
  assumes "\<not> is_digit c" "c \<noteq> 0x2E" "c \<noteq> 0x65" "c \<noteq> 0x45"
  shows "number_literal (digits n @ c # r) = Some (digits n, c # r)"
proof -
  obtain d ds where d: "digits n = d # ds"
    using digits_not_empty [of n] by (cases "digits n") auto
  from digits_hd_digit [of n] d have "is_digit d" by simp
  then have "d \<noteq> 0x2D" by (auto simp add: is_digit_def)
  then have "number_literal (digits n @ c # r) =
    (case integer_part (digits n @ c # r) of
           None \<Rightarrow> None
         | Some (i, s1) \<Rightarrow>
             (case fraction s1 of
                None \<Rightarrow> None
              | Some (f, s2) \<Rightarrow>
                  (case exponent s2 of
                     None \<Rightarrow> None
                   | Some (e, s3) \<Rightarrow> Some ([] @ i @ f @ e, s3))))"
    by (simp add: number_literal_def d)
  then show ?thesis
    using assms by (simp add: integer_part_digits fraction_def exponent_def)
qed

lemma number_literal_decimal:
  assumes "\<not> is_digit c" "c \<noteq> 0x2E" "c \<noteq> 0x65" "c \<noteq> 0x45"
  shows "number_literal (decimal i @ c # r) = Some (decimal i, c # r)"
proof (cases "i < 0")
  case False
  then show ?thesis by (simp add: decimal_def number_literal_digits [OF assms])
next
  case True
  have "number_literal (0x2D # digits (nat (- i)) @ c # r) =
    (case integer_part (digits (nat (- i)) @ c # r) of
           None \<Rightarrow> None
         | Some (i, s1) \<Rightarrow>
             (case fraction s1 of
                None \<Rightarrow> None
              | Some (f, s2) \<Rightarrow>
                  (case exponent s2 of
                     None \<Rightarrow> None
                   | Some (e, s3) \<Rightarrow> Some ([0x2D] @ i @ f @ e, s3))))"
    by (simp add: number_literal_def)
  then show ?thesis
    using True assms by (simp add: decimal_def integer_part_digits fraction_def exponent_def)
qed

lemma decimal_head: "\<exists>d ds. decimal i = d # ds \<and> (d = 0x2D \<or> is_digit d)"
proof (cases "i < 0")
  case True
  then show ?thesis by (simp add: decimal_def)
next
  case False
  obtain d ds where d: "digits (nat i) = d # ds"
    using digits_not_empty [of "nat i"] by (cases "digits (nat i)") auto
  with digits_hd_digit [of "nat i"] False show ?thesis by (simp add: decimal_def)
qed

lemma decimal_plain: "list_all plain (decimal i)"
  by (simp add: decimal_def digits_plain plain_ascii)

subsection \<open>The task message\<close>

lemma cons_Some: "cons t (Some ts) = Some (t # ts)"
  by (simp add: cons_def)

lemma tokens_string:
  "tokens (0x22 # quote_units s @ 0x22 # rest) = cons (TString s) (tokens rest)"
  by (simp add: whitespace_def string_characters_quote_units)

lemma tokens_decimal:
  assumes "\<not> is_digit c" "c \<noteq> 0x2E" "c \<noteq> 0x65" "c \<noteq> 0x45"
  shows "tokens (decimal i @ c # r) = cons (TNumber (decimal i)) (tokens (c # r))"
proof -
  obtain d ds where d: "decimal i = d # ds" and h: "d = 0x2D \<or> is_digit d"
    using decimal_head [of i] by blast
  from h have "\<not> whitespace d" "d \<noteq> 0x7B" "d \<noteq> 0x7D" "d \<noteq> 0x5B" "d \<noteq> 0x5D" "d \<noteq> 0x3A"
    "d \<noteq> 0x2C" "d \<noteq> 0x22"
    by (auto simp add: whitespace_def is_digit_def)
  with h have "tokens (d # ds @ c # r) =
      (case number_literal (d # ds @ c # r) of
           None \<Rightarrow> None
         | Some (n, rest) \<Rightarrow> cons (TNumber n) (tokens rest))"
    by simp
  then show ?thesis
    using number_literal_decimal [OF assms, of i r] by (simp add: d)
qed

lemma js_punctuation:
  "js ''{'' = [0x7B]" "js ''}'' = [0x7D]" "js '':'' = [0x3A]" "js '','' = [0x2C]"
  by (simp_all add: js_def)

lemma stringify_task_text:
  assumes "\<bar>chatId\<bar> \<le> 9007199254740992"
  shows "stringify_task numeral_of url chatId =
     0x7B # 0x22 # quote_units (js ''url'') @ 0x22 # 0x3A # 0x22 # quote_units url @ 0x22 # 0x2C #
     0x22 # quote_units (js ''chatId'') @ 0x22 # 0x3A # decimal chatId @ [0x7D]"
  using assms
  by (simp add: stringify_task_def Number_toString_def QuoteJSONString_def js_punctuation)

lemma tokens_stringify_task:
  assumes "\<bar>chatId\<bar> \<le> 9007199254740992"
  shows "tokens (stringify_task numeral_of url chatId) =
     Some [LBrace, TString (js ''url''), Colon, TString url, Comma, TString (js ''chatId''), Colon,
           TNumber (decimal chatId), RBrace]"
proof -
  have n: "tokens (decimal chatId @ [0x7D]) = Some [TNumber (decimal chatId), RBrace]"
    by (subst tokens_decimal) (simp_all add: is_digit_def whitespace_def cons_Some)
  have c: "tokens (0x3A # r) = cons Colon (tokens r)" "tokens (0x2C # r) = cons Comma (tokens r)"
    "tokens (0x7B # r) = cons LBrace (tokens r)" for r
    by (simp_all add: whitespace_def)
  show ?thesis
    unfolding stringify_task_text [OF assms]
    by (simp only: c tokens_string n cons_Some)
qed

lemma well_formed_stringify_task:
  assumes "\<bar>chatId\<bar> \<le> 9007199254740992"
  shows "well_formed (stringify_task numeral_of url chatId)"
proof -
  have p: "plain 0x7B" "plain 0x22" "plain 0x3A" "plain 0x2C" "plain 0x7D"
    by (simp_all add: plain_ascii)
  have "well_formed (decimal chatId @ [0x7D])"
    by (simp add: well_formed_plains decimal_plain p [unfolded plain_def])
  then show ?thesis
    unfolding stringify_task_text [OF assms]
    by (simp only: well_formed_plain p well_formed_quote_units)
qed

lemma keys_differ: "js ''url'' \<noteq> js ''chatId''"
  by (simp add: js_def)

lemma parse_stringify_task:
  assumes "\<bar>chatId\<bar> \<le> 9007199254740992"
  shows "JSON_parse (toString (Buffer_from (stringify_task numeral_of url chatId))) =
     Inr (JObject [(js ''url'', JString url), (js ''chatId'', JNumber (decimal chatId))])"
  by (simp add: toString_Buffer_from well_formed_stringify_task [OF assms] JSON_parse_def
      tokens_stringify_task [OF assms] step_def value_start_def key_def complete_def
      close_object_def)

lemma destructure_stringify_task:
  assumes "\<bar>chatId\<bar> \<le> 9007199254740992"
  shows "destructure (JSON_parse (toString (Buffer_from (stringify_task numeral_of url chatId)))) =
     returns (Some (JString url), Some (JNumber (decimal chatId)))"
  using keys_differ by (simp add: parse_stringify_task [OF assms] destructure_def property_def)

lemma Number_safe: "safe_digits s \<Longrightarrow> Number engine s = Finite (of_nat (digits_value s))"
  by (cases s) (simp_all add: Number_def safe_digits_def)

lemma Number_minus:
  assumes "safe_digits r"
  shows "Number engine (0x2D # r) = Finite (- of_nat (digits_value r))"
proof -
  have "\<not> safe_digits (0x2D # r)"
    by (simp add: safe_digits_def is_digit_def)
  with assms show ?thesis by (simp add: Number_def)
qed

lemma Number_decimal:
  assumes "\<bar>i\<bar> \<le> 9007199254740992"
  shows "Number engine (decimal i) = Finite (of_int i)"
proof (cases "i < 0")
  case False
  have "safe_digits (digits (nat i))"
    using assms False by (simp add: safe_digits_def digits_all digits_not_empty digits_value_digits)
  then show ?thesis
    using False by (simp add: Number_safe decimal_def digits_value_digits)
next
  case True
  have "safe_digits (digits (nat (- i)))"
    using assms True by (simp add: safe_digits_def digits_all digits_not_empty digits_value_digits)
  then show ?thesis
    using True by (simp add: Number_minus decimal_def digits_value_digits)
qed

text \<open>
  C5: for a chat id that is a safe integer, the message that \<open>sendToQueue\<close> publishes for
  \<open>url\<close> and \<open>chatId\<close> is the UTF-8 text of \<open>{"url":...,"chatId":...}\<close> with the number
  as its decimal numeral; decoded and parsed by the worker it is an object with exactly
  the two members \<open>url\<close> and \<open>chatId\<close>, and the destructuring yields the string \<open>url\<close>,
  code unit for code unit, and the number whose literal is the decimal numeral of
  \<open>chatId\<close>, which denotes \<open>chatId\<close>.
\<close>

theorem task_round_trip:
  assumes "\<bar>chatId\<bar> \<le> 9007199254740992"
  shows "published (snd (sendToQueue numeral_of None url chatId)) =
           [Buffer_from (stringify_task numeral_of url chatId)] \<and>
         stringify_task numeral_of url chatId =
           js ''{'' @ QuoteJSONString (js ''url'') @ js '':'' @ QuoteJSONString url @ js '','' @
           QuoteJSONString (js ''chatId'') @ js '':'' @ decimal chatId @ js ''}'' \<and>
         JSON_parse (toString (Buffer_from (stringify_task numeral_of url chatId))) =
           Inr (JObject [(js ''url'', JString url), (js ''chatId'', JNumber (decimal chatId))]) \<and>
         destructure (JSON_parse (toString (Buffer_from (stringify_task numeral_of url chatId)))) =
           returns (Some (JString url), Some (JNumber (decimal chatId))) \<and>
         Number engine (decimal chatId) = Finite (of_int chatId)"
proof (intro conjI)
  show "published (snd (sendToQueue numeral_of None url chatId)) =
      [Buffer_from (stringify_task numeral_of url chatId)]"
    by (simp add: sendToQueue_def fault_at_def run_simps published_def Let_def)
  show "stringify_task numeral_of url chatId =
      js ''{'' @ QuoteJSONString (js ''url'') @ js '':'' @ QuoteJSONString url @ js '','' @
      QuoteJSONString (js ''chatId'') @ js '':'' @ decimal chatId @ js ''}''"
    using assms by (simp add: stringify_task_def Number_toString_def)
  show "JSON_parse (toString (Buffer_from (stringify_task numeral_of url chatId))) =
     Inr (JObject [(js ''url'', JString url), (js ''chatId'', JNumber (decimal chatId))])"
    using assms by (rule parse_stringify_task)
  show "destructure (JSON_parse (toString (Buffer_from (stringify_task numeral_of url chatId)))) =
     returns (Some (JString url), Some (JNumber (decimal chatId)))"
    using assms by (rule destructure_stringify_task)
  show "Number engine (decimal chatId) = Finite (of_int chatId)"
    using assms by (rule Number_decimal)
qed

lemma example_task_parsed:
  "destructure (JSON_parse (toString (content example_task))) =
     returns (Some (JString (js ''https://example.com'')), Some (JNumber (decimal 42)))"
  by (simp add: example_task_def destructure_stringify_task)

theorem task_round_trip_witness:
  "published (snd (sendToQueue no_numeral None (js ''https://example.com'') 42)) =
     [content example_task] \<and>
   destructure (JSON_parse (toString (content example_task))) =
     returns (Some (JString (js ''https://example.com'')), Some (JNumber (decimal 42))) \<and>
   Number reject_all (decimal 42) = Finite 42"
proof -
  have safe: "\<bar>42 :: int\<bar> \<le> 9007199254740992"
    by simp
  note r = task_round_trip [OF safe, of no_numeral "js ''https://example.com''" reject_all]
  have c: "content example_task =
      Buffer_from (stringify_task no_numeral (js ''https://example.com'') 42)"
    by (simp add: example_task_def)
  from r have "Number reject_all (decimal 42) = Finite (of_int 42)" by simp
  then have n: "Number reject_all (decimal 42) = Finite 42" by simp
  from r have p: "published (snd (sendToQueue no_numeral None (js ''https://example.com'') 42)) =
      [Buffer_from (stringify_task no_numeral (js ''https://example.com'') 42)]"
    by (rule conjunct1)
  from r have d: "destructure (JSON_parse (toString (Buffer_from
      (stringify_task no_numeral (js ''https://example.com'') 42)))) =
     returns (Some (JString (js ''https://example.com'')), Some (JNumber (decimal 42)))"
    by blast
  from n p d show ?thesis unfolding c by blast
qed

section \<open>The worker's callback\<close>

definition delivers :: "outcomes \<Rightarrow> bool" where
  "delivers w =
     (\<not> isl (launch w) \<and>
      (case lighthouse w of Inr (Some (Some report)) \<Rightarrow> True | _ \<Rightarrow> False) \<and>
      save_report w = None \<and> kill w = None \<and> \<not> isl (generatePDFReport w) \<and>
      write_pdf w = None \<and> sendDocument w = None)"



lemma converts_parsed: "converts (Some (JString s))" "converts (Some (JNumber n))"
  by (simp_all add: converts_def)


lemma checkPageSpeed_no_delivery:
  "\<not> called (SendDocument c p) (snd (checkPageSpeed w url))"
  "\<not> called (Ack tag) (snd (checkPageSpeed w url))"
  by (auto simp add: checkPageSpeed_def audit_def called_simps split: option.splits exn.splits)

lemma deliver_report_no_ack: "\<not> called (Ack tag) (snd (deliver_report w url chatId))"
  by (simp add: deliver_report_def called_simps checkPageSpeed_no_delivery)



text \<open>
  The callback after a successful parse: it throws at the first \<open>console.log\<close> when one
  of the two values has no text, and goes on to the \<open>try\<close> otherwise.
\<close>

lemma consume_callback_no_text:
  assumes "destructure (JSON_parse (toString (content m))) = returns (url, chatId)"
    and "\<not> (converts url \<and> converts chatId)"
  shows "consume_callback w (Some m) = (Inl cannot_convert, [])"
  using assms(2)
  by (auto simp add: consume_callback_def assms(1) prod_eq_iff run_simps)

lemma consume_callback_parsed:
  assumes "destructure (JSON_parse (toString (content m))) = returns (url, chatId)"
    and "converts url" and "converts chatId"
  shows "consume_callback w (Some m) =
     (Inr (),
      Did (Console_log (Received url chatId)) #
      snd (deliver_report w url chatId) @
      (case fst (deliver_report w url chatId) of
         Inl error \<Rightarrow> [Did (Console_error None error)]
       | Inr u \<Rightarrow> []) @
      [Did (Ack (deliveryTag m))])"
  by (cases "fst (deliver_report w url chatId)")
    (simp_all add: consume_callback_def assms prod_eq_iff run_simps)

lemmas example_task_logged = consume_callback_parsed [OF example_task_parsed converts_parsed]



lemma delivers_all_succeed: "delivers all_succeed"
  by (simp add: delivers_def all_succeed_def)


lemma calls_Nil: "calls a [] = 0"
  and calls_Cons: "calls a (e # t) = (if action_of e = a then 1 else 0) + calls a t"
  by (simp_all add: calls_def)

text \<open>
  C6: for an entry whose content parses and whose \<open>url\<close> and \<open>chatId\<close> have a text, so
  that the first \<open>console.log\<close> returns and the \<open>try\<close> is entered, whatever analysis,
  report generation and delivery throw, the callback returns normally, the error is
  written to the console and the entry is acknowledged once.
\<close>

theorem processing_errors_contained:
  assumes "destructure (JSON_parse (toString (content m))) = returns (url, chatId)"
    and "converts url" and "converts chatId"
  shows "fst (consume_callback w (Some m)) = Inr () \<and>
         calls (Ack (deliveryTag m)) (snd (consume_callback w (Some m))) = 1 \<and>
         (\<forall>error. fst (deliver_report w url chatId) = Inl error \<longrightarrow>
            Did (Console_error None error) \<in> set (snd (consume_callback w (Some m))))"
proof -
  let ?logged = "case fst (deliver_report w url chatId) of
         Inl error \<Rightarrow> [Did (Console_error None error)]
       | Inr u \<Rightarrow> []"
  have l: "calls (Ack (deliveryTag m)) ?logged = 0"
    by (cases "fst (deliver_report w url chatId)") (simp_all add: calls_def)
  have d: "calls (Ack (deliveryTag m)) (snd (deliver_report w url chatId)) = 0"
    by (simp add: calls_none deliver_report_no_ack)
  show ?thesis
    unfolding consume_callback_parsed [OF assms]
    by (simp add: calls_append calls_Cons calls_Nil l d)
qed

lemma analysis_fails_thrown:
  "converts url \<Longrightarrow>
   fst (deliver_report analysis_fails url chatId) =
     Inl (Exn Error (Failed_to_analyze url (Text (js ''timeout''))))"
  by (simp add: deliver_report_def checkPageSpeed_def audit_def run_simps analysis_fails_def all_succeed_def
      timeout_def)

theorem processing_errors_contained_witness:
  "fst (consume_callback analysis_fails (Some example_task)) = Inr () \<and>
   calls (Ack 1) (snd (consume_callback analysis_fails (Some example_task))) = 1 \<and>
   Did (Console_error None
     (Exn Error (Failed_to_analyze (Some (JString (js ''https://example.com''))) (Text (js ''timeout'')))))
     \<in> set (snd (consume_callback analysis_fails (Some example_task)))"
  using processing_errors_contained [OF example_task_parsed converts_parsed, of analysis_fails]
    analysis_fails_thrown [OF converts_parsed(1)]
  by (simp add: example_task_def)

lemma well_formed_ascii: "list_all plain s \<Longrightarrow> well_formed s"
  using well_formed_plains [of s "[]"] by simp

text \<open>
  C3, where the code fails it: \<open>JSON.parse\<close> and the destructuring stand before the
  \<open>try\<close>, so an entry whose content is \<open>null\<close> or is not JSON makes the callback throw
  before any call: the entry gets no \<open>ack\<close> and no \<open>nack\<close>.
\<close>

theorem entry_without_resolution:
  "consume_callback w (Some \<lparr>content = Buffer_from (js ''null''), deliveryTag = 7\<rparr>) =
     (Inl null_destructure, []) \<and>
   consume_callback w (Some \<lparr>content = Buffer_from (js ''oops''), deliveryTag = 7\<rparr>) =
     (Inl syntax_error, [])"
proof -
  have "well_formed (js ''null'')" "well_formed (js ''oops'')"
    by (rule well_formed_ascii, simp add: js_def plain_ascii)+
  then have t: "toString (Buffer_from (js ''null'')) = js ''null''"
    "toString (Buffer_from (js ''oops'')) = js ''oops''"
    by (simp_all only: toString_Buffer_from)
  have n: "JSON_parse (js ''null'') = Inr JNull"
    by (simp add: JSON_parse_def js_def whitespace_def is_digit_def keyword_def cons_def
        step_def value_start_def complete_def)
  have o: "JSON_parse (js ''oops'') = Inl syntax_error"
    by (simp add: JSON_parse_def js_def whitespace_def is_digit_def)
  show ?thesis
    by (simp add: consume_callback_def t n o destructure_def bind_def throw_def)
qed

text \<open>
  So does an entry whose content parses to values that a template string cannot convert:
  the callback throws at the first \<open>console.log\<close>, before the \<open>try\<close>, and makes no call.
\<close>

lemma no_text_units:
  "no_text =
     js ''{'' @ [0x22] @ js ''url'' @ [0x22] @ js '':{'' @ [0x22] @ js ''toString'' @ [0x22] @
     js '':1},'' @ [0x22] @ js ''chatId'' @ [0x22] @ js '':42}''"
  by (simp add: no_text_def js_def QuoteJSONString_def quote_unit_def is_lead_def is_trail_def)

lemma no_text_parsed:
  "destructure (JSON_parse (toString (content no_text_task))) =
     returns (Some (JObject [(js ''toString'', JNumber (js ''1''))]), Some (JNumber (js ''42'')))"
proof -
  have "well_formed no_text"
    unfolding no_text_units by (rule well_formed_ascii, simp add: js_def plain_ascii)
  then have t: "toString (Buffer_from no_text) = no_text"
    by (simp only: toString_Buffer_from)
  have "JSON_parse no_text =
     Inr (JObject [(js ''url'', JObject [(js ''toString'', JNumber (js ''1''))]),
                   (js ''chatId'', JNumber (js ''42''))])"
    unfolding no_text_units
    by (simp add: JSON_parse_def js_def whitespace_def is_digit_def number_literal_def
        integer_part_def fraction_def exponent_def cons_def prepend_def step_def value_start_def
        key_def complete_def close_object_def Let_def)
  then show ?thesis
    by (simp add: no_text_task_def t destructure_def property_def) (simp add: js_def)
qed

lemma entry_without_text:
  "consume_callback w (Some no_text_task) = (Inl cannot_convert, [])"
  by (rule consume_callback_no_text [OF no_text_parsed]) (simp add: converts_def)

lemma audit_calls:
  "\<not> called Launch (snd (audit w url chrome))" "\<not> called (Kill p) (snd (audit w url chrome))"
  by (auto simp add: audit_def called_simps split: option.splits exn.splits)

text \<open>
  C7: once Chrome is launched, \<open>chrome.kill()\<close> is called exactly once, as the last call
  of \<open>checkPageSpeed\<close>, whether Lighthouse returned a result, returned an invalid one or
  threw, and whether the report could be saved; in the worker, for an entry whose content
  parses and whose \<open>url\<close> and \<open>chatId\<close> have a text, so that the first \<open>console.log\<close>
  returns and \<open>checkPageSpeed\<close> is called, this call comes before the acknowledgement
  of the entry.
\<close>

theorem chrome_killed_on_every_exit:
  assumes "launch w = Inr chrome"
  shows "(\<exists>t k. snd (checkPageSpeed w url) = Did Launch # t @ [k] \<and>
            action_of k = Kill chrome \<and> (kill w = None \<longrightarrow> k = Did (Kill chrome)) \<and>
            \<not> called Launch t \<and> (\<forall>p. \<not> called (Kill p) t)) \<and>
         (destructure (JSON_parse (toString (content m))) = returns (url, chatId) \<and>
          converts url \<and> converts chatId \<longrightarrow>
            (\<exists>before k after.
               snd (consume_callback w (Some m)) = before @ k # after @ [Did (Ack (deliveryTag m))] \<and>
               action_of k = Kill chrome \<and> (kill w = None \<longrightarrow> k = Did (Kill chrome))))"
proof -
  define k where "k = (case kill w of None \<Rightarrow> Did (Kill chrome) | Some e \<Rightarrow> Failed (Kill chrome) e)"
  have k: "action_of k = Kill chrome" "kill w = None \<longrightarrow> k = Did (Kill chrome)"
    unfolding k_def by (cases "kill w"; simp)+
  have t: "snd (checkPageSpeed w url) = Did Launch # snd (audit w url chrome) @ [k]"
    by (simp add: checkPageSpeed_def assms run_simps k_def)
  have first: "\<exists>t k. snd (checkPageSpeed w url) = Did Launch # t @ [k] \<and>
            action_of k = Kill chrome \<and> (kill w = None \<longrightarrow> k = Did (Kill chrome)) \<and>
            \<not> called Launch t \<and> (\<forall>p. \<not> called (Kill p) t)"
  proof (intro exI conjI allI)
    show "snd (checkPageSpeed w url) = Did Launch # snd (audit w url chrome) @ [k]" by (rule t)
    show "action_of k = Kill chrome" by (rule k)
    show "kill w = None \<longrightarrow> k = Did (Kill chrome)" by (rule k)
    show "\<not> called Launch (snd (audit w url chrome))" by (rule audit_calls)
    show "\<not> called (Kill p) (snd (audit w url chrome))" for p by (rule audit_calls)
  qed
  have second: "\<exists>before k after.
               snd (consume_callback w (Some m)) = before @ k # after @ [Did (Ack (deliveryTag m))] \<and>
               action_of k = Kill chrome \<and> (kill w = None \<longrightarrow> k = Did (Kill chrome))"
    if parsed: "destructure (JSON_parse (toString (content m))) = returns (url, chatId)"
      and logged: "converts url" "converts chatId"
  proof -
    obtain rest where d: "snd (deliver_report w url chatId) = snd (checkPageSpeed w url) @ rest"
      by (simp add: deliver_report_def snd_bind)
    obtain logged where
      "snd (consume_callback w (Some m)) =
         Did (Console_log (Received url chatId)) # snd (deliver_report w url chatId) @ logged @
         [Did (Ack (deliveryTag m))]"
      by (simp add: consume_callback_parsed [OF parsed logged])
    then have c: "snd (consume_callback w (Some m)) =
        (Did (Console_log (Received url chatId)) # Did Launch # snd (audit w url chrome)) @ k #
        (rest @ logged) @ [Did (Ack (deliveryTag m))]"
      by (simp add: d t)
    show ?thesis
    proof (intro exI conjI)
      show "snd (consume_callback w (Some m)) =
        (Did (Console_log (Received url chatId)) # Did Launch # snd (audit w url chrome)) @ k #
        (rest @ logged) @ [Did (Ack (deliveryTag m))]" by (rule c)
      show "action_of k = Kill chrome" by (rule k)
      show "kill w = None \<longrightarrow> k = Did (Kill chrome)" by (rule k)
    qed
  qed
  from first second show ?thesis by blast
qed

theorem chrome_killed_on_every_exit_witness:
  "(\<exists>t. snd (checkPageSpeed analysis_fails (Some (JString (js ''https://example.com'')))) =
          Did Launch # t @ [Did (Kill 9222)] \<and>
        \<not> called Launch t \<and> (\<forall>p. \<not> called (Kill p) t)) \<and>
   (\<exists>before after.
      snd (consume_callback analysis_fails (Some example_task)) =
        before @ Did (Kill 9222) # after @ [Did (Ack 1)])"
proof -
  have l: "launch analysis_fails = Inr 9222" and k: "kill analysis_fails = None"
    by (simp_all add: analysis_fails_def all_succeed_def)
  have d: "deliveryTag example_task = 1"
    by (simp add: example_task_def)
  from chrome_killed_on_every_exit [OF l, of "Some (JString (js ''https://example.com''))"
      example_task "Some (JNumber (decimal 42))"] k example_task_parsed d
  show ?thesis by (simp add: converts_parsed)
qed

section \<open>The cron jobs\<close>

text \<open>
  A schedule is due at a wall-clock minute when its hour and its minute equal the
  clock's (\<open>due_db\<close> for a row of the table, \<open>due_memory\<close> for a schedule in memory).
  \<open>audited\<close> and \<open>sent_to\<close> read from a run the URLs that Lighthouse audited and the
  chats a document was sent to; \<open>chat_key\<close> is the key of a chat in \<open>scheduledReports\<close>,
  a string.
\<close>

definition due_memory :: "clock \<Rightarrow> schedule \<Rightarrow> bool" where
  "due_memory T s =
     (schedule_hour s = Finite (of_nat (getHours T)) \<and> schedule_minute s = Finite (of_nat (getMinutes T)))"

definition sent_to :: "event list \<Rightarrow> jsvalue list" where
  "sent_to t = concat (map (\<lambda>e. case e of Did (SendDocument chat p) \<Rightarrow> [chat] | _ \<Rightarrow> []) t)"

definition audited :: "event list \<Rightarrow> jsvalue list" where
  "audited t = concat (map (\<lambda>e. case e of Did (Lighthouse url p) \<Rightarrow> [url] | _ \<Rightarrow> []) t)"

definition chat_key :: "(int \<Rightarrow> jsstring) \<Rightarrow> int \<Rightarrow> jsvalue" where
  "chat_key numeral_of chat = Some (JString (Number_toString numeral_of chat))"

lemma sent_to_append: "sent_to (t @ u) = sent_to t @ sent_to u"
  and audited_append: "audited (t @ u) = audited t @ audited u"
  and sent_to_Nil: "sent_to [] = []"
  and audited_Nil: "audited [] = []"
  by (simp_all add: sent_to_def audited_def)

lemma concat_if_filter: "concat (map (\<lambda>x. if P x then [f x] else []) xs) = map f (filter P xs)"
  by (induction xs) simp_all

lemma strict_eq_Finite: "strict_eq a (Finite x) = (a = Finite x)"
  by (auto simp add: strict_eq_def)

subsection \<open>The cron job of \<open>index.ts\<close>\<close>

lemma checkPageSpeed_launches: "calls Launch (snd (checkPageSpeed w url)) = 1"
proof (cases "launch w")
  case (Inl e)
  then show ?thesis by (simp add: checkPageSpeed_def run_simps calls_Cons calls_Nil)
next
  case (Inr chrome)
  have "calls Launch (snd (audit w url chrome)) = 0"
    by (simp add: calls_none audit_calls)
  with Inr show ?thesis
    by (cases "kill w") (simp_all add: checkPageSpeed_def run_simps calls_Cons calls_Nil calls_append)
qed

lemma send_report_launches: "calls Launch (send_report numeral_of w chat s) = 1"
proof -
  let ?url = "Some (JString (schedule_url s))"
  have "\<not> called Launch (case fst (checkPageSpeed w ?url) of Inl e \<Rightarrow> [] | Inr x \<Rightarrow> snd (k x))"
    if "\<And>x. \<not> called Launch (snd (k x))" for k :: "speed_report \<Rightarrow> unit run"
    using that by (cases "fst (checkPageSpeed w ?url)") (simp_all add: called_def)
  then have "calls Launch (snd (deliver_report w ?url (chat_key numeral_of chat))) = 1"
    by (simp add: deliver_report_def snd_bind [of "checkPageSpeed w ?url"] calls_append
        checkPageSpeed_launches calls_none called_simps)
  moreover have "calls Launch (case r of Inl e \<Rightarrow> snd (effect None (Console_error None e)) | Inr x \<Rightarrow> []) = 0"
    for r :: "exn + unit"
    by (cases r) (simp_all add: snd_effect calls_Cons calls_Nil)
  ultimately show ?thesis
    by (simp add: send_report_def snd_try_catch calls_append chat_key_def)
qed

lemma send_reports_launches:
  "calls Launch (send_reports numeral_of ws (Finite (of_nat (getHours T))) (Finite (of_nat (getMinutes T))) reports) =
     length (filter (\<lambda>(chat, s). due_memory T s) reports)"
  by (induction reports arbitrary: ws)
    (auto simp add: calls_Nil calls_append send_report_launches strict_eq_Finite due_memory_def)

lemma send_report_delivers:
  assumes "delivers w"
  shows "sent_to (send_report numeral_of w chat s) = [chat_key numeral_of chat]"
    and "audited (send_report numeral_of w chat s) = [Some (JString (schedule_url s))]"
    and "Did (SendDocument (chat_key numeral_of chat) filePath) \<in> set (send_report numeral_of w chat s)"
proof -
  from assms obtain chrome report pdf where
    "launch w = Inr chrome" "lighthouse w = Inr (Some (Some report))" "save_report w = None"
    "kill w = None" "generatePDFReport w = Inr pdf" "write_pdf w = None" "sendDocument w = None"
    by (cases "launch w"; cases "lighthouse w"; cases "generatePDFReport w")
      (auto simp add: delivers_def split: option.splits)
  then have "send_report numeral_of w chat s =
     Did Launch # Did (Lighthouse (Some (JString (schedule_url s))) chrome) #
     Did (WriteFile outputPath (Full_report report)) # Did (Console_log Report_saved) #
     Did (Kill chrome) # Did (Render (Summary report)) # Did (WriteFile filePath (Pdf pdf)) #
     Did (SendDocument (chat_key numeral_of chat) filePath) #
     (case unlink w of
        None \<Rightarrow> [Did (Unlink filePath)]
      | Some e \<Rightarrow> [Failed (Unlink filePath) e, Did (Console_error None e)])"
    by (cases "unlink w")
      (simp_all add: send_report_def deliver_report_def checkPageSpeed_def audit_def run_simps
        chat_key_def)
  then show "sent_to (send_report numeral_of w chat s) = [chat_key numeral_of chat]"
    and "audited (send_report numeral_of w chat s) = [Some (JString (schedule_url s))]"
    and "Did (SendDocument (chat_key numeral_of chat) filePath) \<in> set (send_report numeral_of w chat s)"
    by (cases "unlink w"; simp add: sent_to_def audited_def)+
qed

lemma send_reports_delivers:
  assumes "\<forall>k. delivers (ws k)"
  shows "sent_to (send_reports numeral_of ws (Finite (of_nat (getHours T))) (Finite (of_nat (getMinutes T))) reports) =
           concat (map (\<lambda>(chat, s). if due_memory T s then [chat_key numeral_of chat] else []) reports)"
    and "audited (send_reports numeral_of ws (Finite (of_nat (getHours T))) (Finite (of_nat (getMinutes T))) reports) =
           concat (map (\<lambda>(chat, s). if due_memory T s then [Some (JString (schedule_url s))] else [])
             reports)"
  using assms
  by (induction reports arbitrary: ws)
    (auto simp add: sent_to_append audited_append sent_to_Nil audited_Nil send_report_delivers
      strict_eq_Finite due_memory_def)

lemma length_filter_for_in: "length (filter P (for_in reports)) = length (filter P reports)"
proof -
  have "length (filter P (filter I xs)) + length (filter P (filter (\<lambda>x. \<not> I x) xs)) =
      length (filter P xs)" for I and xs :: scheduledReports
    by (induction xs) simp_all
  then show ?thesis
    by (simp add: for_in_def filter_sort)
qed

lemma due_condition:
  "(strict_eq (schedule_hour s) (Finite (of_nat (getHours T))) \<and>
    strict_eq (schedule_minute s) (Finite (of_nat (getMinutes T)))) = due_memory T s"
  by (simp add: strict_eq_Finite due_memory_def)

lemma send_reports_contains:
  "k < length (filter (\<lambda>(chat, s). due_memory T s) reports) \<Longrightarrow>
   set (send_report numeral_of (ws k) (fst (filter (\<lambda>(chat, s). due_memory T s) reports ! k))
          (snd (filter (\<lambda>(chat, s). due_memory T s) reports ! k)))
   \<subseteq> set (send_reports numeral_of ws (Finite (of_nat (getHours T))) (Finite (of_nat (getMinutes T))) reports)"
proof (induction reports arbitrary: ws k)
  case Nil
  then show ?case by simp
next
  case (Cons r reports)
  obtain chat s where r: "r = (chat, s)" by (cases r)
  show ?case
  proof (cases "due_memory T s")
    case False
    with Cons show ?thesis
      by (simp add: r due_condition)
  next
    case True
    show ?thesis
    proof (cases k)
      case 0
      with True show ?thesis
        by (simp add: r due_condition)
    next
      case (Suc j)
      with Cons.prems True have "j < length (filter (\<lambda>(chat, s). due_memory T s) reports)"
        by (simp add: r)
      from Cons.IH [OF this, of "\<lambda>k. ws (Suc k)"] True Suc show ?thesis
        by (auto simp add: r due_condition)
    qed
  qed
qed

lemma send_report_logs:
  "fst (deliver_report w (Some (JString (schedule_url s))) (chat_key numeral_of chat)) = Inl e \<Longrightarrow>
   Did (Console_error None e) \<in> set (send_report numeral_of w chat s)"
  by (simp add: send_report_def snd_try_catch snd_effect chat_key_def)

subsection \<open>The cron job of \<open>producer.ts\<close>\<close>

definition failed_line :: "ScheduledReport \<Rightarrow> line" where
  "failed_line S = Failed_to_queue (report_url S) (report_hour S) (report_minute S) (report_chatId S)"

lemma queue_report_published: "Did (SendToQueue queue (wire numeral_of S)) \<in> set (queue_report numeral_of None S)"
  by (simp add: queue_report_no_fault)

lemma queue_report_logs:
  "Did (Console_error (Some (failed_line S)) e) \<in> set (queue_report numeral_of (Some (c, e)) S)"
  by (cases c)
    (simp_all add: queue_report_def sendToQueue_def fault_at_def run_simps failed_line_def Let_def)

lemma queue_reports_contains:
  "k < length Ss \<Longrightarrow> set (queue_report numeral_of (fs k) (Ss ! k)) \<subseteq> set (queue_reports numeral_of fs Ss)"
proof (induction Ss arbitrary: fs k)
  case Nil
  then show ?case by simp
next
  case (Cons S Ss)
  show ?case
  proof (cases k)
    case 0
    then show ?thesis by simp
  next
    case (Suc j)
    with Cons.prems have "j < length Ss" by simp
    from Cons.IH [OF this, of "\<lambda>k. fs (Suc k)"] Suc show ?thesis by auto
  qed
qed

lemma tick_db_trace:
  "snd (tick_db numeral_of None fs T db) = queue_reports numeral_of fs (filter (due_db T) (rows db))"
  by (simp add: tick_db_def findAll_def due_db_def [abs_def])

text \<open>
  C2: at every tick, the cron job of \<open>producer.ts\<close> calls \<open>sendToQueue\<close> once for each
  stored schedule that is due and for no other, whatever the broker answers, and with
  a broker that works each stored schedule contributes to the queue exactly one message,
  with its URL and chat id, if it is due and none otherwise; the cron job of \<open>index.ts\<close>
  starts one report for each stored schedule that is due and for no other, and where
  every step succeeds each stored schedule contributes exactly one audit of its URL and
  one document to its chat if it is due and none otherwise.
\<close>

theorem schedule_matching_exact:
  "calls Connect (snd (tick_db numeral_of None fs T db)) = length (filter (due_db T) (rows db)) \<and>
   published (snd (tick_db numeral_of None (\<lambda>k. None) T db)) =
     concat (map (\<lambda>S. if due_db T S then [wire numeral_of S] else []) (rows db)) \<and>
   calls Launch (tick_memory numeral_of ws T reports) =
     length (filter (\<lambda>(chat, s). due_memory T s) reports) \<and>
   ((\<forall>k. delivers (ws k)) \<longrightarrow>
      audited (tick_memory numeral_of ws T reports) =
        concat (map (\<lambda>(chat, s). if due_memory T s then [Some (JString (schedule_url s))] else [])
          (for_in reports)) \<and>
      sent_to (tick_memory numeral_of ws T reports) =
        concat (map (\<lambda>(chat, s). if due_memory T s then [chat_key numeral_of chat] else []) (for_in reports)))"
  by (simp add: tick_db_trace queue_reports_connects queue_reports_published concat_if_filter
      tick_memory_def send_reports_launches length_filter_for_in send_reports_delivers)

theorem schedule_matching_exact_witness:
  "audited (tick_memory no_numeral (\<lambda>k. all_succeed) \<lparr>getHours = 9, getMinutes = 30\<rparr> mornings) =
     [Some (JString (js ''https://example.com''))] \<and>
   sent_to (tick_memory no_numeral (\<lambda>k. all_succeed) \<lparr>getHours = 9, getMinutes = 30\<rparr> mornings) = [chat_key no_numeral 42] \<and>
   sent_to (tick_memory no_numeral (\<lambda>k. all_succeed) \<lparr>getHours = 9, getMinutes = 31\<rparr> mornings) = [chat_key no_numeral 7] \<and>
   sent_to (tick_memory no_numeral (\<lambda>k. all_succeed) \<lparr>getHours = 9, getMinutes = 32\<rparr> mornings) = []"
proof -
  have f: "for_in mornings = [mornings ! 1, mornings ! 0]"
    by (simp add: for_in_def mornings_def is_index_def)
  have d: "\<forall>k. delivers ((\<lambda>k. all_succeed) k)"
    by (simp add: delivers_all_succeed)
  note t = schedule_matching_exact [of no_numeral _ _ _ "\<lambda>k. all_succeed" mornings, THEN conjunct2,
      THEN conjunct2, THEN conjunct2, THEN mp, OF d]
  show ?thesis
    by (simp add: t f) (simp add: mornings_def due_memory_def)
qed

text \<open>
  C8: in one tick, whatever happens to the other schedules that are due, each of them is
  attempted: in \<open>producer.ts\<close> a schedule whose \<open>sendToQueue\<close> meets no fault has its
  message published, and one whose \<open>sendToQueue\<close> throws has the failure written to the
  console; in \<open>index.ts\<close> a schedule whose report succeeds has its document sent, and one
  whose report throws has the error written to the console.
\<close>

theorem enqueue_failures_isolated:
  "(let due = filter (due_db T) (rows db); trace = snd (tick_db numeral_of None fs T db)
    in \<forall>k < length due.
         (fs k = None \<longrightarrow> Did (SendToQueue queue (wire numeral_of (due ! k))) \<in> set trace) \<and>
         (\<forall>c e. fs k = Some (c, e) \<longrightarrow>
            Did (Console_error (Some (failed_line (due ! k))) e) \<in> set trace)) \<and>
   (let due = filter (\<lambda>(chat, s). due_memory T s) (for_in reports); trace = tick_memory numeral_of ws T reports
    in \<forall>k < length due.
         (delivers (ws k) \<longrightarrow> Did (SendDocument (chat_key numeral_of (fst (due ! k))) filePath) \<in> set trace) \<and>
         (\<forall>e. fst (deliver_report (ws k) (Some (JString (schedule_url (snd (due ! k)))))
                   (chat_key numeral_of (fst (due ! k)))) = Inl e \<longrightarrow>
            Did (Console_error None e) \<in> set trace))"
proof -
  have db: "(fs k = None \<longrightarrow>
        Did (SendToQueue queue (wire numeral_of (filter (due_db T) (rows db) ! k)))
          \<in> set (snd (tick_db numeral_of None fs T db))) \<and>
      (\<forall>c e. fs k = Some (c, e) \<longrightarrow>
        Did (Console_error (Some (failed_line (filter (due_db T) (rows db) ! k))) e)
          \<in> set (snd (tick_db numeral_of None fs T db)))"
    if "k < length (filter (due_db T) (rows db))" for k
    using queue_reports_contains [OF that, of numeral_of fs]
      queue_report_published [of numeral_of "filter (due_db T) (rows db) ! k"]
      queue_report_logs [of "filter (due_db T) (rows db) ! k"]
    by (auto simp add: tick_db_trace)
  have memory: "(delivers (ws k) \<longrightarrow>
        Did (SendDocument
              (chat_key numeral_of (fst (filter (\<lambda>(chat, s). due_memory T s) (for_in reports) ! k))) filePath)
          \<in> set (tick_memory numeral_of ws T reports)) \<and>
      (\<forall>e. fst (deliver_report (ws k)
                 (Some (JString (schedule_url
                    (snd (filter (\<lambda>(chat, s). due_memory T s) (for_in reports) ! k)))))
                 (chat_key numeral_of (fst (filter (\<lambda>(chat, s). due_memory T s) (for_in reports) ! k)))) = Inl e \<longrightarrow>
            Did (Console_error None e) \<in> set (tick_memory numeral_of ws T reports))"
    if "k < length (filter (\<lambda>(chat, s). due_memory T s) (for_in reports))" for k
    using send_reports_contains [OF that, of numeral_of ws] send_report_delivers(3) send_report_logs
    unfolding tick_memory_def by blast
  from db memory show ?thesis
    by (simp add: Let_def)
qed

theorem enqueue_failures_isolated_witness:
  "Did (Console_error (Some (failed_line (rows two_rows ! 0))) timeout)
     \<in> set (snd (tick_db no_numeral None first_send_fails half_past_nine two_rows)) \<and>
   Did (SendToQueue queue (wire no_numeral (rows two_rows ! 1)))
     \<in> set (snd (tick_db no_numeral None first_send_fails half_past_nine two_rows)) \<and>
   Did (Console_error None
     (Exn Error (Failed_to_analyze (Some (JString (js ''https://example.org''))) (Text (js ''timeout'')))))
     \<in> set (tick_memory no_numeral first_analysis_fails half_past_nine both_mornings) \<and>
   Did (SendDocument (chat_key no_numeral 42) filePath)
     \<in> set (tick_memory no_numeral first_analysis_fails half_past_nine both_mornings)"
proof -
  have rows_due: "filter (due_db half_past_nine) (rows two_rows) = rows two_rows"
    by (simp add: due_db_def half_past_nine_def two_rows_def)
  have n: "length (rows two_rows) = 2"
    by (simp add: two_rows_def)
  have both_due:
    "filter (\<lambda>(chat, s). due_memory half_past_nine s) (for_in both_mornings) =
       [both_mornings ! 1, both_mornings ! 0]"
    by (simp add: for_in_def both_mornings_def is_index_def due_memory_def half_past_nine_def)
  note th = enqueue_failures_isolated [of half_past_nine two_rows no_numeral first_send_fails
      both_mornings first_analysis_fails, unfolded Let_def rows_due both_due n]
  have a: "Did (Console_error (Some (failed_line (rows two_rows ! 0))) timeout)
     \<in> set (snd (tick_db no_numeral None first_send_fails half_past_nine two_rows))"
    using th [THEN conjunct1, rule_format, of 0] by (simp add: first_send_fails_def)
  have b: "Did (SendToQueue queue (wire no_numeral (rows two_rows ! 1)))
     \<in> set (snd (tick_db no_numeral None first_send_fails half_past_nine two_rows))"
    using th [THEN conjunct1, rule_format, of 1] by (simp add: first_send_fails_def)
  have c: "Did (Console_error None
     (Exn Error (Failed_to_analyze (Some (JString (js ''https://example.org''))) (Text (js ''timeout'')))))
     \<in> set (tick_memory no_numeral first_analysis_fails half_past_nine both_mornings)"
    using th [THEN conjunct2, rule_format, of 0]
    by (simp add: first_analysis_fails_def analysis_fails_thrown converts_parsed both_mornings_def)
  have d: "Did (SendDocument (chat_key no_numeral 42) filePath)
     \<in> set (tick_memory no_numeral first_analysis_fails half_past_nine both_mornings)"
    using th [THEN conjunct2, rule_format, of 1]
    by (simp add: first_analysis_fails_def delivers_all_succeed both_mornings_def)
  from a b c d show ?thesis by blast
qed


section \<open>Prefetch: one entry at a time\<close>

lemma startWorker_prefetch:
  assumes "Did (Consume queue) \<in> set (snd (startWorker f))"
  shows "prefetch_count (snd (startWorker f)) = 1"
proof -
  from assms have "fault_at f At_connect = None" "fault_at f At_createChannel = None"
    "fault_at f At_assertQueue = None"
    by (simp_all add: startWorker_def did_simps returns_simps)
  then show ?thesis
    by (simp add: startWorker_def run_simps prefetch_count_def)
qed

text \<open>The calls of a callback: none, or calls that are no \<open>ack\<close> and then the \<open>ack\<close> of its entry.\<close>

definition holds :: "nat \<Rightarrow> event list \<Rightarrow> bool" where
  "holds tag todo = (\<exists>before. todo = before @ [Did (Ack tag)] \<and> (\<forall>t. \<not> called (Ack t) before))"

lemma destructure_cases:
  "(\<exists>e. destructure p = (Inl e, [])) \<or> (\<exists>url chatId. destructure p = returns (url, chatId))"
  by (cases p) (auto simp add: destructure_def throw_def)

lemma consume_callback_holds:
  "snd (consume_callback w (Some m)) = [] \<or> holds (deliveryTag m) (snd (consume_callback w (Some m)))"
proof -
  from destructure_cases [of "JSON_parse (toString (content m))"]
  show ?thesis
  proof (elim disjE exE)
    fix e
    assume "destructure (JSON_parse (toString (content m))) = (Inl e, [])"
    then show ?thesis by (simp add: consume_callback_def bind_def)
  next
    fix url chatId
    assume p: "destructure (JSON_parse (toString (content m))) = returns (url, chatId)"
    show ?thesis
    proof (cases "converts url \<and> converts chatId")
      case False
      with p show ?thesis by (simp add: consume_callback_no_text)
    next
      case True
      then have logged: "converts url" "converts chatId" by simp_all
      let ?logged = "case fst (deliver_report w url chatId) of
           Inl error \<Rightarrow> [Did (Console_error None error)]
         | Inr u \<Rightarrow> []"
      have "\<not> called (Ack t) ?logged" for t
        by (cases "fst (deliver_report w url chatId)") (simp_all add: called_def)
      then have "\<not> called (Ack t)
          (Did (Console_log (Received url chatId)) # snd (deliver_report w url chatId) @ ?logged)" for t
        using deliver_report_no_ack [of t w url chatId] by (auto simp add: called_def)
      then have "holds (deliveryTag m) (snd (consume_callback w (Some m)))"
        unfolding holds_def consume_callback_parsed [OF p logged]
        by (intro exI [of _ "Did (Console_log (Received url chatId)) #
              snd (deliver_report w url chatId) @ ?logged"]) simp
      then show ?thesis ..
    qed
  qed
qed

lemma holds_Cons:
  assumes "holds tag (e # todo)"
  shows "(todo = [] \<and> e = Did (Ack tag)) \<or> (todo \<noteq> [] \<and> (\<forall>t. e \<noteq> Did (Ack t)) \<and> holds tag todo)"
proof -
  from assms obtain before where b: "e # todo = before @ [Did (Ack tag)]"
    and n: "\<forall>t. \<not> called (Ack t) before"
    unfolding holds_def by blast
  show ?thesis
  proof (cases before)
    case Nil
    with b show ?thesis by simp
  next
    case (Cons x rest)
    with b have e: "e = x" and t: "todo = rest @ [Did (Ack tag)]" by simp_all
    from n Cons have "\<forall>t. action_of x \<noteq> Ack t" and "\<forall>t. \<not> called (Ack t) rest"
      by (simp_all add: called_def)
    then have "\<forall>t. e \<noteq> Did (Ack t)" and "holds tag todo"
      using e t by (auto simp add: holds_def)
    with t show ?thesis by simp
  qed
qed

text \<open>
  What every state of a channel with prefetch count \<open>1\<close> satisfies: the delivery tags are
  distinct, at most one delivery is unacknowledged, and a callback that has calls left
  holds its entry unacknowledged and makes the acknowledgement as its last call.
\<close>

definition sequential :: "channel \<Rightarrow> bool" where
  "sequential c =
     (distinct (map fst (running c) @ map deliveryTag (ready c)) \<and>
      length (unacknowledged c) \<le> 1 \<and>
      (\<forall>j < length (running c). snd (running c ! j) \<noteq> [] \<longrightarrow>
         fst (running c ! j) \<in> set (unacknowledged c) \<and>
         holds (fst (running c ! j)) (snd (running c ! j))))"

lemma sequential_subscribed:
  "distinct (map deliveryTag entries) \<Longrightarrow> sequential (subscribed entries)"
  by (simp add: sequential_def subscribed_def)

lemma deliver_finished:
  assumes "sequential c" and "deliver 1 w c = Some c'"
  shows "\<forall>j < length (running c). snd (running c ! j) = [] \<and> fst (running c ! j) \<notin> set (unacknowledged c')"
proof -
  from assms(2) obtain m ms where r: "ready c = m # ms" and u: "unacknowledged c = []"
    and c': "c' = \<lparr>ready = ms, unacknowledged = [deliveryTag m],
        running = running c @ [(deliveryTag m, snd (consume_callback w (Some m)))]\<rparr>"
    by (cases "ready c") (auto simp add: deliver_def split: if_splits)
  have d: "\<forall>j < length (running c). fst (running c ! j) \<noteq> deliveryTag m"
  proof (intro allI impI)
    fix j
    assume "j < length (running c)"
    then have "fst (running c ! j) \<in> fst ` set (running c)"
      by simp
    moreover from assms(1) r have "deliveryTag m \<notin> fst ` set (running c)"
      by (auto simp add: sequential_def)
    ultimately show "fst (running c ! j) \<noteq> deliveryTag m"
      by metis
  qed
  from assms(1) u have "\<forall>j < length (running c). snd (running c ! j) = []"
    by (auto simp add: sequential_def)
  with d c' show ?thesis by simp
qed

lemma deliver_sequential:
  assumes "sequential c" and "deliver 1 w c = Some c'"
  shows "sequential c'"
proof -
  from assms(2) obtain m ms where r: "ready c = m # ms" and u: "unacknowledged c = []"
    and c': "c' = \<lparr>ready = ms, unacknowledged = [deliveryTag m],
        running = running c @ [(deliveryTag m, snd (consume_callback w (Some m)))]\<rparr>"
    by (cases "ready c") (auto simp add: deliver_def split: if_splits)
  from assms(1) u have f: "\<forall>j < length (running c). snd (running c ! j) = []"
    by (auto simp add: sequential_def)
  from assms(1) r have "distinct (map fst (running c') @ map deliveryTag (ready c'))"
    by (auto simp add: sequential_def c')
  moreover have "length (unacknowledged c') \<le> 1"
    by (simp add: c')
  moreover have "\<forall>j < length (running c'). snd (running c' ! j) \<noteq> [] \<longrightarrow>
      fst (running c' ! j) \<in> set (unacknowledged c') \<and>
      holds (fst (running c' ! j)) (snd (running c' ! j))"
  proof (intro allI impI)
    fix j
    assume j: "j < length (running c')" and n: "snd (running c' ! j) \<noteq> []"
    show "fst (running c' ! j) \<in> set (unacknowledged c') \<and>
      holds (fst (running c' ! j)) (snd (running c' ! j))"
    proof (cases "j < length (running c)")
      case True
      with f n show ?thesis by (simp add: c' nth_append)
    next
      case False
      with j have "running c' ! j = (deliveryTag m, snd (consume_callback w (Some m)))"
        by (simp add: c' nth_append)
      with n consume_callback_holds [of w m] show ?thesis by (simp add: c')
    qed
  qed
  ultimately show ?thesis by (simp add: sequential_def)
qed

lemma proceed_sequential:
  assumes "sequential c" and "proceed i c = Some c'"
  shows "sequential c'"
proof -
  from assms(2) obtain tag e todo where i: "i < length (running c)"
    and x: "running c ! i = (tag, e # todo)"
    and c': "c' = c\<lparr>running := (running c)[i := (tag, todo)],
        unacknowledged := acknowledge e (unacknowledged c)\<rparr>"
    by (auto simp add: proceed_def split: if_splits prod.splits list.splits)
  from assms(1) have d: "distinct (map fst (running c))"
    and a: "\<forall>j < length (running c). snd (running c ! j) \<noteq> [] \<longrightarrow>
         fst (running c ! j) \<in> set (unacknowledged c) \<and>
         holds (fst (running c ! j)) (snd (running c ! j))"
    by (simp_all add: sequential_def)
  from a i x have t: "tag \<in> set (unacknowledged c)" and h: "holds tag (e # todo)"
    by auto
  have "map fst ((running c)[i := (tag, todo)]) = (map fst (running c))[i := tag]"
    by (simp add: map_update)
  also have "\<dots> = map fst (running c)"
    using i x by (metis fst_conv list_update_id nth_map)
  finally have m: "map fst (running c') = map fst (running c)"
    by (simp add: c')
  with assms(1) have "distinct (map fst (running c') @ map deliveryTag (ready c'))"
    by (simp add: sequential_def c')
  moreover have "length (unacknowledged c') \<le> 1"
  proof -
    have "length (acknowledge e (unacknowledged c)) \<le> length (unacknowledged c)"
      by (simp add: acknowledge_def split: event.splits action.splits)
    with assms(1) show ?thesis by (simp add: sequential_def c')
  qed
  moreover have "\<forall>j < length (running c'). snd (running c' ! j) \<noteq> [] \<longrightarrow>
      fst (running c' ! j) \<in> set (unacknowledged c') \<and>
      holds (fst (running c' ! j)) (snd (running c' ! j))"
  proof (intro allI impI)
    fix j
    assume j: "j < length (running c')" and n: "snd (running c' ! j) \<noteq> []"
    then have j': "j < length (running c)" by (simp add: c')
    show "fst (running c' ! j) \<in> set (unacknowledged c') \<and>
      holds (fst (running c' ! j)) (snd (running c' ! j))"
    proof (cases "j = i")
      case True
      with i have r: "running c' ! j = (tag, todo)" by (simp add: c')
      with n have "todo \<noteq> []" by simp
      with holds_Cons [OF h] have "\<forall>t. e \<noteq> Did (Ack t)" and "holds tag todo" by auto
      then have "acknowledge e (unacknowledged c) = unacknowledged c"
        by (auto simp add: acknowledge_def split: event.splits action.splits)
      with t r \<open>holds tag todo\<close> show ?thesis by (simp add: c')
    next
      case False
      then have r: "running c' ! j = running c ! j" by (simp add: c')
      with a j' n have u: "fst (running c ! j) \<in> set (unacknowledged c)"
        and k: "holds (fst (running c ! j)) (snd (running c ! j))" by auto
      from d False i j' x have "fst (running c ! j) \<noteq> tag"
        by (metis fst_conv length_map nth_eq_iff_index_eq nth_map)
      with holds_Cons [OF h] u have "fst (running c ! j) \<in> set (acknowledge e (unacknowledged c))"
        by (auto simp add: acknowledge_def split: event.splits action.splits)
      with r k show ?thesis by (simp add: c')
    qed
  qed
  ultimately show ?thesis by (simp add: sequential_def)
qed

lemma moves_sequential:
  "sequential c \<Longrightarrow> moves 1 c xs = Some c' \<Longrightarrow> sequential c'"
proof (induction xs arbitrary: c)
  case Nil
  then show ?case by simp
next
  case (Cons x xs)
  from Cons.prems(2) obtain d where d: "perform 1 c x = Some d" and r: "moves 1 d xs = Some c'"
    by (auto split: option.splits)
  from d Cons.prems(1) have "sequential d"
    by (cases x) (auto intro: deliver_sequential proceed_sequential)
  from this r show ?case by (rule Cons.IH)
qed

lemma moves_append:
  "moves limit c (xs @ ys) = (case moves limit c xs of None \<Rightarrow> None | Some d \<Rightarrow> moves limit d ys)"
  by (induction xs arbitrary: c) (simp_all split: option.splits)

lemma deliver_running:
  "deliver limit w c = Some c' \<Longrightarrow> butlast (running c') = running c"
  by (cases "ready c") (auto simp add: deliver_def split: if_splits)

text \<open>
  C4: the worker's channel has prefetch count \<open>1\<close> once the consumer is subscribed, and
  from then on, whatever the order in which deliveries and the calls of the callbacks
  are made, whenever an entry begins being processed every entry delivered before it has
  been acknowledged and its callback has made all its calls.
\<close>

theorem processing_is_sequential:
  assumes "Did (Consume queue) \<in> set (snd (startWorker f))"
    and "distinct (map deliveryTag entries)"
    and "moves (prefetch_count (snd (startWorker f))) (subscribed entries) (xs @ [Deliver w]) = Some c"
  shows "\<forall>j < length (butlast (running c)).
           snd (butlast (running c) ! j) = [] \<and>
           fst (butlast (running c) ! j) \<notin> set (unacknowledged c)"
proof -
  from assms(3) obtain d where d: "moves 1 (subscribed entries) xs = Some d"
    and c: "deliver 1 w d = Some c"
    by (auto simp add: startWorker_prefetch [OF assms(1)] moves_append split: option.splits)
  from sequential_subscribed [OF assms(2)] d have "sequential d"
    by (rule moves_sequential)
  from deliver_finished [OF this c] show ?thesis
    by (simp add: deliver_running [OF c])
qed

lemma startWorker_subscribes: "Did (Consume queue) \<in> set (snd (startWorker None))"
  by (simp add: startWorker_def run_simps fault_at_def)

lemma second_delivery_waits:
  "deliver 1 w c = Some c' \<Longrightarrow> deliver 1 w' c' = None"
  by (cases "ready c"; cases "ready c'") (auto simp add: deliver_def split: if_splits)

theorem processing_is_sequential_witness:
  "Did (Consume queue) \<in> set (snd (startWorker None)) \<and>
   distinct (map deliveryTag [example_task, second_task]) \<and>
   moves (prefetch_count (snd (startWorker None))) (subscribed [example_task, second_task])
     (first_fails_then_second @ [Deliver all_succeed]) = Some second_started \<and>
   snd (butlast (running second_started) ! 0) = [] \<and>
   fst (butlast (running second_started) ! 0) \<notin> set (unacknowledged second_started)"
proof -
  have d: "deliveryTag example_task = 1" "deliveryTag second_task = 2"
    by (simp_all add: example_task_def second_task_def)
  then have distinct: "distinct (map deliveryTag [example_task, second_task])"
    by simp
  have first: "snd (consume_callback analysis_fails (Some example_task)) =
     [Did (Console_log (Received (Some (JString (js ''https://example.com''))) (Some (JNumber (decimal 42))))),
      Did Launch,
      Failed (Lighthouse (Some (JString (js ''https://example.com''))) 9222) timeout,
      Did (Kill 9222),
      Did (Console_error None
        (Exn Error (Failed_to_analyze (Some (JString (js ''https://example.com''))) (Text (js ''timeout''))))),
      Did (Ack 1)]"
    unfolding example_task_logged d
    by (simp add: deliver_report_def checkPageSpeed_def audit_def run_simps analysis_fails_def
        all_succeed_def timeout_def converts_parsed)
  have run: "moves (prefetch_count (snd (startWorker None))) (subscribed [example_task, second_task])
     (first_fails_then_second @ [Deliver all_succeed]) = Some second_started"
    unfolding startWorker_prefetch [OF startWorker_subscribes]
    by (simp add: first_fails_then_second_def subscribed_def deliver_def proceed_def
        acknowledge_def d first second_started_def)
  from processing_is_sequential [OF startWorker_subscribes distinct run, rule_format, of 0]
  have "snd (butlast (running second_started) ! 0) = [] \<and>
    fst (butlast (running second_started) ! 0) \<notin> set (unacknowledged second_started)"
    by (simp add: second_started_def)
  with startWorker_subscribes distinct run show ?thesis
    by simp
qed

end
